theory Spec2Isabelle
  imports Complex_Main "HOL-Library.AList"
begin

section \<open>Errors and Python primitives\<close>

text \<open>
  The exceptions the indexer can raise or let through.  \<open>ValueError\<close> is what
  \<open>chunk_text\<close> raises on a non-positive chunk size; \<open>RuntimeError\<close> is raised by
  \<open>_ensure_chroma_client\<close> when chromadb is missing; \<open>IndexError\<close> comes from
  indexing an empty list; \<open>JSONDecodeError\<close> from \<open>json.loads\<close> on a store file
  that is not JSON; \<open>BackendError\<close> stands for whatever an external
  collaborator (embedder, vector store) raises.
\<close>

datatype error =
    ValueError string
  | RuntimeError string
  | IndexError
  | JSONDecodeError
  | BackendError string

text \<open>
  Text is a list of characters.  \<open>str.strip()\<close> without argument removes the
  characters for which \<open>str.isspace\<close> holds; below code point 256 these are
  9-13, 28-32, 133 and 160.
\<close>

definition py_isspace :: "char \<Rightarrow> bool" where
  "py_isspace c =
     (let n = (of_char c :: nat)
      in (9 \<le> n \<and> n \<le> 13) \<or> (28 \<le> n \<and> n \<le> 32) \<or> n = 133 \<or> n = 160)"

definition strip :: "string \<Rightarrow> string" where
  "strip s = rev (dropWhile py_isspace (rev (dropWhile py_isspace s)))"

text \<open>
  Python slicing \<open>xs[i:j]\<close> with integer bounds: a negative bound counts from
  the end, and both bounds are clipped to the list.
\<close>

definition slice_index :: "nat \<Rightarrow> int \<Rightarrow> nat" where
  "slice_index n i = (if i < 0 then nat (max 0 (int n + i)) else min n (nat i))"

definition py_slice :: "'a list \<Rightarrow> int \<Rightarrow> int \<Rightarrow> 'a list" where
  "py_slice xs i j =
     (let s = slice_index (length xs) i; e = slice_index (length xs) j
      in take (e - s) (drop s xs))"

section \<open>The chunker\<close>

text \<open>
  The \<open>while start < length\<close> loop of \<open>chunk_text\<close>, with the loop variables
  \<open>start\<close> and \<open>chunks\<close> as arguments.  The loop is not structurally recursive,
  so a run that never leaves it is the value \<open>None\<close>.
\<close>

partial_function (option) chunk_loop ::
  "string \<Rightarrow> int \<Rightarrow> int \<Rightarrow> int \<Rightarrow> string list \<Rightarrow> string list option" where
  "chunk_loop text chunk_size overlap start chunks =
     (if start < int (length text) then
        (let endpos = min (start + chunk_size) (int (length text));
             chunk = strip (py_slice text start endpos);
             chunks' = (if chunk \<noteq> [] then chunks @ [chunk] else chunks)
         in if endpos \<ge> int (length text) then Some chunks'
            else chunk_loop text chunk_size overlap (endpos - overlap) chunks')
      else Some chunks)"

declare chunk_loop.simps [code]

definition clamp_overlap :: "int \<Rightarrow> int \<Rightarrow> int" where
  "clamp_overlap chunk_size chunk_overlap = max 0 (min chunk_overlap (chunk_size - 1))"

definition chunk_text :: "string \<Rightarrow> int \<Rightarrow> int \<Rightarrow> (error + string list) option" where
  "chunk_text text chunk_size chunk_overlap =
     (if chunk_size \<le> 0 then Some (Inl (ValueError ''chunk_size must be positive''))
      else map_option Inr
             (chunk_loop text chunk_size (clamp_overlap chunk_size chunk_overlap) 0 []))"

text \<open>
  The windows \<open>(start, end)\<close> the loop visits, in order: the same control flow as
  \<open>chunk_loop\<close>, recording the bounds of each slice instead of its stripped text.
\<close>

partial_function (option) chunk_windows ::
  "string \<Rightarrow> int \<Rightarrow> int \<Rightarrow> int \<Rightarrow> (int \<times> int) list \<Rightarrow> (int \<times> int) list option" where
  "chunk_windows text chunk_size overlap start ws =
     (if start < int (length text) then
        (let endpos = min (start + chunk_size) (int (length text));
             ws' = ws @ [(start, endpos)]
         in if endpos \<ge> int (length text) then Some ws'
            else chunk_windows text chunk_size overlap (endpos - overlap) ws')
      else Some ws)"

declare chunk_windows.simps [code]

text \<open>What the loop emits for a list of windows: the stripped slices that are not empty.\<close>

definition emitted :: "string \<Rightarrow> (int \<times> int) list \<Rightarrow> string list" where
  "emitted text ws = filter (\<lambda>c. c \<noteq> []) (map (\<lambda>(s, e). strip (py_slice text s e)) ws)"

section \<open>The windows of the chunker, as a total function\<close>

text \<open>
  For an overlap below the chunk size the loop makes progress, and its windows are
  given by the total function \<open>win\<close> on the text length.  The two loops above are
  then shown to compute exactly these windows and the chunks emitted for them.
\<close>

function win :: "int \<Rightarrow> int \<Rightarrow> int \<Rightarrow> int \<Rightarrow> (int \<times> int) list" where
  "win len cs ov start =
     (if start < len then
        (if start + cs < len \<and> ov < cs then (start, start + cs) # win len cs ov (start + cs - ov)
         else [(start, min (start + cs) len)])
      else [])"
  by pat_completeness auto
termination
  by (relation "measure (\<lambda>(len, cs, ov, start). nat (len - start))") auto

declare win.simps [simp del]

text \<open>
  The non-overlapping portions of a list of windows: the first window whole, and of
  every later window what lies beyond its first \<open>overlap\<close> characters (the part the
  window before it has not covered).
\<close>
fun fresh_parts :: "string \<Rightarrow> int \<Rightarrow> (int \<times> int) list \<Rightarrow> string list" where
  "fresh_parts text ov [] = []"
| "fresh_parts text ov ((s, e) # ws) =
     py_slice text s e # map (\<lambda>(s', e'). py_slice text (s' + ov) e') ws"

section \<open>Documents, chunks and the document store\<close>

record document =
  doc_id :: string
  path :: string
  content :: string

record chunk =
  chunk_id :: string
  chunk_doc_id :: string
  chunk_content :: string
  source_path :: string
  chunk_index :: nat

text \<open>Decimal rendering of the chunk index inside the f-string \<open>"{doc_id}:{index}"\<close>.\<close>

fun str_of_nat :: "nat \<Rightarrow> string" where
  "str_of_nat n =
     (if n < 10 then [char_of (48 + n)]
      else str_of_nat (n div 10) @ [char_of (48 + n mod 10)])"

declare str_of_nat.simps [simp del]

text \<open>
  A stored record is the dictionary \<open>{"path": ..., "content": ...}\<close>; the store's
  \<open>_docs\<close> is a dictionary from document id to stored record.  Both are association
  lists in insertion order.  The file \<open>doc_store.json\<close> is absent, holds a JSON
  object, holds some other JSON value, or is not JSON at all.
\<close>

type_synonym stored = "(string \<times> string) list"
type_synonym docs = "(string \<times> stored) list"

datatype store_file = NoFile | JsonDict docs | JsonOther | NotJson

definition docstore_load :: "store_file \<Rightarrow> error + docs" where
  "docstore_load f =
     (case f of
        NoFile \<Rightarrow> Inr []
      | JsonDict d \<Rightarrow> Inr d
      | JsonOther \<Rightarrow> Inr []
      | NotJson \<Rightarrow> Inl JSONDecodeError)"

definition stored_of :: "document \<Rightarrow> stored" where
  "stored_of document = [(''path'', path document), (''content'', content document)]"

definition docstore_add :: "document \<Rightarrow> docs \<Rightarrow> docs" where
  "docstore_add document ds = AList.update (doc_id document) (stored_of document) ds"

definition docstore_get :: "docs \<Rightarrow> string \<Rightarrow> stored option" where
  "docstore_get ds k = map_of ds k"

definition docstore_count :: "docs \<Rightarrow> nat" where
  "docstore_count ds = length (remdups (map fst ds))"

text \<open>
  \<open>_build_chunks\<close>: the outer loop over the documents, with the list built so far as an
  argument; \<open>enumerate\<close> numbers the chunks of one document from 0.  An exception of
  \<open>chunk_text\<close> leaves the loop.
\<close>

definition make_chunk :: "document \<Rightarrow> nat \<times> string \<Rightarrow> chunk" where
  "make_chunk document ic =
     \<lparr>chunk_id = doc_id document @ '':'' @ str_of_nat (fst ic),
      chunk_doc_id = doc_id document,
      chunk_content = snd ic,
      source_path = path document,
      chunk_index = fst ic\<rparr>"

fun build_chunks :: "document list \<Rightarrow> int \<Rightarrow> int \<Rightarrow> chunk list \<Rightarrow> (error + chunk list) option" where
  "build_chunks [] chunk_size chunk_overlap chunks = Some (Inr chunks)"
| "build_chunks (document # documents) chunk_size chunk_overlap chunks =
     (case chunk_text (content document) chunk_size chunk_overlap of
        None \<Rightarrow> None
      | Some (Inl e) \<Rightarrow> Some (Inl e)
      | Some (Inr texts) \<Rightarrow>
          build_chunks documents chunk_size chunk_overlap
            (chunks @ map (make_chunk document) (enumerate 0 texts)))"

section \<open>The external collaborators and the persisted state\<close>

text \<open>
  Metadata values of the vector store are strings or integers.  A hit of a query
  carries a metadata dictionary (or none) and a distance; distances and scores are
  modelled as real numbers.
\<close>

datatype meta_value = MStr string | MInt int

type_synonym metadata = "(string \<times> meta_value) list"
type_synonym embedding = "real list"
type_synonym embedder = "string list \<Rightarrow> error + embedding list"

record payload =
  ids :: "string list"
  documents :: "string list"
  metadatas :: "metadata list"
  embeddings :: "embedding list"

record query_result =
  qr_metadatas :: "metadata option list list option"
  qr_distances :: "real list list option"

type_synonym collection = "(string \<times> string \<times> metadata \<times> embedding) list"

text \<open>The calls made to the embedding capability and to a collection, in order.\<close>

datatype event =
    EmbedTexts "string list"
  | CollUpsert payload
  | CollAdd payload
  | CollQuery "embedding list" int

text \<open>
  What the indexer does not decide: whether chromadb can be imported, what
  \<open>get_embedder()\<close> returns, whether a collection has \<open>upsert\<close>, and what the
  collection's \<open>upsert\<close>, \<open>add\<close> and \<open>query\<close> do.
\<close>

record env =
  chromadb_available :: bool
  get_embedder :: "error + embedder"
  has_upsert :: bool
  coll_upsert :: "payload \<Rightarrow> collection \<Rightarrow> error + collection"
  coll_add :: "payload \<Rightarrow> collection \<Rightarrow> error + collection"
  coll_query :: "collection \<Rightarrow> embedding list \<Rightarrow> int \<Rightarrow> error + query_result"

text \<open>
  The state under one data directory: the store file, the named collections, and the
  calls made so far.
\<close>

record world =
  doc_store_file :: store_file
  collections :: "(string \<times> collection) list"
  calls :: "event list"

definition ensure_chroma_client :: "env \<Rightarrow> error + unit" where
  "ensure_chroma_client ev =
     (if chromadb_available ev then Inr ()
      else Inl (RuntimeError ''chromadb is required to store the vector index''))"

definition create_collection :: "string \<Rightarrow> world \<Rightarrow> world" where
  "create_collection name w =
     (case map_of (collections w) name of
        Some c \<Rightarrow> w
      | None \<Rightarrow> w\<lparr>collections := AList.update name [] (collections w)\<rparr>)"

definition recreate_collection :: "string \<Rightarrow> world \<Rightarrow> world" where
  "recreate_collection name w =
     w\<lparr>collections := AList.update name [] (AList.delete name (collections w))\<rparr>"

definition the_collection :: "string \<Rightarrow> world \<Rightarrow> collection" where
  "the_collection name w = (case map_of (collections w) name of Some c \<Rightarrow> c | None \<Rightarrow> [])"

section \<open>The indexing pipeline\<close>

record summary =
  s_docs_dir :: string
  s_data_dir :: string
  s_collection :: string
  doc_count :: nat
  chunk_count :: nat

definition chunk_metadata :: "chunk \<Rightarrow> metadata" where
  "chunk_metadata c =
     [(''doc_id'', MStr (chunk_doc_id c)),
      (''source_path'', MStr (source_path c)),
      (''chunk_index'', MInt (int (chunk_index c)))]"

text \<open>
  \<open>build_index\<close>, on the documents that \<open>load_documents(docs_dir)\<close> returned.  The result
  pairs what the call returns or raises with the state it leaves; \<open>None\<close> is a call that
  never returns.
\<close>

definition build_index ::
  "env \<Rightarrow> document list \<Rightarrow> string \<Rightarrow> string \<Rightarrow> string \<Rightarrow> int \<Rightarrow> int \<Rightarrow> embedder option \<Rightarrow> bool
     \<Rightarrow> world \<Rightarrow> ((error + summary) \<times> world) option" where
  "build_index ev docs docs_dir data_dir collection_name chunk_size chunk_overlap emb rebuild w =
     (case ensure_chroma_client ev of
        Inl e \<Rightarrow> Some (Inl e, w)
      | Inr _ \<Rightarrow>
     let w1 = (if rebuild then recreate_collection collection_name w
               else create_collection collection_name w)
     in
     (case (if rebuild then Inr ([], w1\<lparr>doc_store_file := NoFile\<rparr>)
            else (case docstore_load (doc_store_file w1) of
                    Inl e \<Rightarrow> Inl e
                  | Inr d \<Rightarrow> Inr (d, w1))) of
        Inl e \<Rightarrow> Some (Inl e, w1)
      | Inr (d0, w2) \<Rightarrow>
     let d1 = fold docstore_add docs d0;
         w3 = w2\<lparr>doc_store_file := JsonDict d1\<rparr>
     in
     (case build_chunks docs chunk_size chunk_overlap [] of
        None \<Rightarrow> None
      | Some (Inl e) \<Rightarrow> Some (Inl e, w3)
      | Some (Inr chunks) \<Rightarrow>
     if chunks = [] then
       Some (Inr \<lparr>s_docs_dir = docs_dir, s_data_dir = data_dir, s_collection = collection_name,
                  doc_count = length docs, chunk_count = 0\<rparr>, w3)
     else
     (case (case emb of Some f \<Rightarrow> Inr f | None \<Rightarrow> get_embedder ev) of
        Inl e \<Rightarrow> Some (Inl e, w3)
      | Inr f \<Rightarrow>
     let w4 = w3\<lparr>calls := calls w3 @ [EmbedTexts (map chunk_content chunks)]\<rparr>
     in
     (case f (map chunk_content chunks) of
        Inl e \<Rightarrow> Some (Inl e, w4)
      | Inr vectors \<Rightarrow>
     let p = \<lparr>ids = map chunk_id chunks,
              documents = map chunk_content chunks,
              metadatas = map chunk_metadata chunks,
              embeddings = vectors\<rparr>;
         w5 = w4\<lparr>calls := calls w4 @ [if has_upsert ev then CollUpsert p else CollAdd p]\<rparr>
     in
     (case (if has_upsert ev then coll_upsert ev p (the_collection collection_name w5)
            else coll_add ev p (the_collection collection_name w5)) of
        Inl e \<Rightarrow> Some (Inl e, w5)
      | Inr c \<Rightarrow>
          Some (Inr \<lparr>s_docs_dir = docs_dir, s_data_dir = data_dir, s_collection = collection_name,
                     doc_count = length docs, chunk_count = length chunks\<rparr>,
                w5\<lparr>collections := AList.update collection_name c (collections w5)\<rparr>)))))))"

section \<open>The query pipeline\<close>

record result =
  r_doc_id :: meta_value
  r_source_path :: string
  score :: real
  r_content :: string

record response =
  r_query :: string
  results :: "result list"

definition truthy :: "meta_value \<Rightarrow> bool" where
  "truthy v = (case v of MStr s \<Rightarrow> s \<noteq> [] | MInt i \<Rightarrow> i \<noteq> 0)"

text \<open>\<open>metadata.get("doc_id") if metadata else None\<close>.\<close>

definition hit_doc_id :: "metadata option \<Rightarrow> meta_value option" where
  "hit_doc_id metadata =
     (case metadata of
        None \<Rightarrow> None
      | Some m \<Rightarrow> if m = [] then None else map_of m ''doc_id'')"

text \<open>
  The loop over \<open>zip(metadatas, distances)\<close> that fills \<open>best_scores\<close>, a dictionary in
  insertion order.
\<close>

fun aggregate ::
  "(metadata option \<times> real) list \<Rightarrow> (meta_value \<times> real) list \<Rightarrow> (meta_value \<times> real) list" where
  "aggregate [] best_scores = best_scores"
| "aggregate ((metadata, distance) # hits) best_scores =
     (case hit_doc_id metadata of
        None \<Rightarrow> aggregate hits best_scores
      | Some d \<Rightarrow>
          if \<not> truthy d then aggregate hits best_scores
          else (case map_of best_scores d of
                  None \<Rightarrow> aggregate hits (AList.update d distance best_scores)
                | Some current \<Rightarrow>
                    if distance < current
                    then aggregate hits (AList.update d distance best_scores)
                    else aggregate hits best_scores))"

text \<open>\<open>sorted(best_scores.items(), key=lambda item: item[1])[:top_k]\<close>; the sort is stable.\<close>

definition ranked :: "(meta_value \<times> real) list \<Rightarrow> int \<Rightarrow> (meta_value \<times> real) list" where
  "ranked best_scores top_k = py_slice (sort_key snd best_scores) 0 top_k"

definition dict_get :: "(string \<times> string) list \<Rightarrow> string \<Rightarrow> string \<Rightarrow> string" where
  "dict_get d k dflt = (case map_of d k of Some v \<Rightarrow> v | None \<Rightarrow> dflt)"

definition store_lookup :: "docs \<Rightarrow> meta_value \<Rightarrow> stored option" where
  "store_lookup ds k = (case k of MStr s \<Rightarrow> docstore_get ds s | MInt i \<Rightarrow> None)"

fun respond :: "docs \<Rightarrow> (meta_value \<times> real) list \<Rightarrow> result list \<Rightarrow> result list" where
  "respond ds [] response = response"
| "respond ds ((d, distance) # rest) response =
     (case store_lookup ds d of
        None \<Rightarrow> respond ds rest response
      | Some stored \<Rightarrow>
          if stored = [] then respond ds rest response
          else respond ds rest
                 (response @
                  [\<lparr>r_doc_id = d,
                    r_source_path = dict_get stored ''path'' [],
                    score = 1 - distance,
                    r_content = dict_get stored ''content'' []\<rparr>]))"

text \<open>Lines 215 to 237 of \<open>query_index\<close>: from the hits to the response list.\<close>

definition query_results ::
  "docs \<Rightarrow> metadata option list \<Rightarrow> real list \<Rightarrow> int \<Rightarrow> result list" where
  "query_results ds ms distances top_k =
     respond ds (ranked (aggregate (zip ms distances) []) top_k) []"

text \<open>\<open>results.get(key, [[]])[0] or []\<close>.\<close>

definition first_or_empty :: "'a list list option \<Rightarrow> error + 'a list" where
  "first_or_empty v =
     (case v of
        None \<Rightarrow> Inr []
      | Some [] \<Rightarrow> Inl IndexError
      | Some (x # xs) \<Rightarrow> Inr x)"

definition query_index ::
  "env \<Rightarrow> string \<Rightarrow> string \<Rightarrow> int \<Rightarrow> embedder option \<Rightarrow> world \<Rightarrow> (error + response) \<times> world" where
  "query_index ev query collection_name top_k emb w =
     (case ensure_chroma_client ev of
        Inl e \<Rightarrow> (Inl e, w)
      | Inr _ \<Rightarrow>
     let w1 = create_collection collection_name w
     in
     (case docstore_load (doc_store_file w1) of
        Inl e \<Rightarrow> (Inl e, w1)
      | Inr ds \<Rightarrow>
     if docstore_count ds = 0 then (Inr \<lparr>r_query = query, results = []\<rparr>, w1)
     else
     (case (case emb of Some f \<Rightarrow> Inr f | None \<Rightarrow> get_embedder ev) of
        Inl e \<Rightarrow> (Inl e, w1)
      | Inr f \<Rightarrow>
     let w2 = w1\<lparr>calls := calls w1 @ [EmbedTexts [query]]\<rparr>
     in
     (case f [query] of
        Inl e \<Rightarrow> (Inl e, w2)
      | Inr query_embedding \<Rightarrow>
     let w3 = w2\<lparr>calls := calls w2 @ [CollQuery query_embedding top_k]\<rparr>
     in
     (case coll_query ev (the_collection collection_name w3) query_embedding top_k of
        Inl e \<Rightarrow> (Inl e, w3)
      | Inr res \<Rightarrow>
     (case first_or_empty (qr_metadatas res) of
        Inl e \<Rightarrow> (Inl e, w3)
      | Inr ms \<Rightarrow>
     (case first_or_empty (qr_distances res) of
        Inl e \<Rightarrow> (Inl e, w3)
      | Inr distances \<Rightarrow>
          (Inr \<lparr>r_query = query, results = query_results ds ms distances top_k\<rparr>, w3))))))))"

section \<open>The aggregation, in the words of the specification\<close>

text \<open>
  The hits that are not discarded, each with the document id of its metadata: those
  whose metadata has a \<open>doc_id\<close> that is neither missing nor empty.  \<open>distances_of d\<close>
  lists the distances of the kept hits of document \<open>d\<close>.  \<open>to_result\<close> is the result
  emitted for one ranked document, if the store has it.
\<close>

definition kept_hits :: "(metadata option \<times> real) list \<Rightarrow> (meta_value \<times> real) list" where
  "kept_hits hits =
     List.map_filter
       (\<lambda>(m, x). case hit_doc_id m of
                    None \<Rightarrow> None
                  | Some d \<Rightarrow> if truthy d then Some (d, x) else None) hits"

definition distances_of :: "meta_value \<Rightarrow> (metadata option \<times> real) list \<Rightarrow> real list" where
  "distances_of d hits = map snd (filter (\<lambda>(k, x). k = d) (kept_hits hits))"

fun best_of :: "real list \<Rightarrow> real option" where
  "best_of [] = None"
| "best_of (x # xs) = (case best_of xs of None \<Rightarrow> Some x | Some c \<Rightarrow> Some (min x c))"

text \<open>The better of a current best distance (if any) and a new one (if any).\<close>

definition merge_best :: "real option \<Rightarrow> real option \<Rightarrow> real option" where
  "merge_best cur new =
     (case new of
        None \<Rightarrow> cur
      | Some m \<Rightarrow> (case cur of None \<Rightarrow> Some m | Some c \<Rightarrow> Some (min c m)))"

definition to_result :: "docs \<Rightarrow> meta_value \<times> real \<Rightarrow> result option" where
  "to_result ds item =
     (case store_lookup ds (fst item) of
        None \<Rightarrow> None
      | Some stored \<Rightarrow>
          if stored = [] then None
          else Some \<lparr>r_doc_id = fst item,
                     r_source_path = dict_get stored ''path'' [],
                     score = 1 - snd item,
                     r_content = dict_get stored ''content'' []\<rparr>)"

definition doc_hit :: "string \<Rightarrow> metadata option" where
  "doc_hit d = Some [(''doc_id'', MStr d)]"

definition three_hits :: query_result where
  "three_hits =
     \<lparr>qr_metadatas = Some [[doc_hit ''A'', doc_hit ''A'', doc_hit ''B'']],
      qr_distances = Some [[0.3, 0.1, 0.2]]\<rparr>"

section \<open>Stand-ins for the collaborators\<close>

text \<open>
  Deterministic stand-ins used to run the pipelines on concrete inputs: an embedder
  that returns one fixed vector per text, one that always fails, a collection whose
  \<open>upsert\<close> and \<open>add\<close> insert or replace by id, and a query that returns given hits.
\<close>

definition unit_embedder :: embedder where
  "unit_embedder texts = Inr (map (\<lambda>t. [1]) texts)"

definition failing_embedder :: embedder where
  "failing_embedder texts = Inl (BackendError ''embedding failed'')"

definition store_payload :: "payload \<Rightarrow> collection \<Rightarrow> error + collection" where
  "store_payload p c =
     Inr (fold (\<lambda>(i, x). AList.update i x)
            (zip (ids p) (zip (documents p) (zip (metadatas p) (embeddings p)))) c)"

definition simple_env :: "query_result \<Rightarrow> env" where
  "simple_env hits =
     \<lparr>chromadb_available = True,
      get_embedder = Inr unit_embedder,
      has_upsert = True,
      coll_upsert = store_payload,
      coll_add = store_payload,
      coll_query = (\<lambda>c q k. Inr hits)\<rparr>"

definition no_hits :: query_result where
  "no_hits = \<lparr>qr_metadatas = Some [[]], qr_distances = Some [[]]\<rparr>"

definition empty_world :: world where
  "empty_world = \<lparr>doc_store_file = NoFile, collections = [], calls = []\<rparr>"

definition doc_a :: document where
  "doc_a = \<lparr>doc_id = ''A'', path = ''docs/a.txt'', content = ''Alpha topic and shared term''\<rparr>"

definition doc_b :: document where
  "doc_b = \<lparr>doc_id = ''B'', path = ''docs/b.txt'', content = ''Beta topic only''\<rparr>"

definition doc_c :: document where
  "doc_c = \<lparr>doc_id = ''C'', path = ''docs/c.txt'', content = ''Gamma''\<rparr>"

definition world_ab :: world where
  "world_ab =
     \<lparr>doc_store_file = JsonDict [(''A'', [(''path'', ''docs/a.txt''), (''content'', ''old alpha'')]),
                                 (''B'', stored_of doc_b)],
      collections = [], calls = []\<rparr>"

section \<open>Properties of the chunker\<close>

lemma chunk_windows_win:
  "ov < cs \<Longrightarrow> chunk_windows text cs ov start ws = Some (ws @ win (int (length text)) cs ov start)"
proof (induction "int (length text)" cs ov start arbitrary: ws rule: win.induct)
  case (1 cs ov start)
  show ?case
  proof (cases "start < int (length text)")
    case False
    then show ?thesis by (simp add: chunk_windows.simps win.simps)
  next
    case True
    show ?thesis
    proof (cases "start + cs < int (length text)")
      case False
      with True show ?thesis
        by (subst chunk_windows.simps, subst win.simps) (simp add: Let_def min_def)
    next
      case more: True
      have "chunk_windows text cs ov start ws =
            chunk_windows text cs ov (start + cs - ov) (ws @ [(start, start + cs)])"
        using True more by (subst chunk_windows.simps) (simp add: Let_def min_def)
      also have "\<dots> = Some ((ws @ [(start, start + cs)]) @ win (int (length text)) cs ov (start + cs - ov))"
        using "1.hyps" [OF True] more "1.prems" by simp
      also have "\<dots> = Some (ws @ win (int (length text)) cs ov start)"
        using True more "1.prems" by (subst (2) win.simps) simp
      finally show ?thesis .
    qed
  qed
qed

lemma chunk_loop_win:
  "ov < cs \<Longrightarrow> chunk_loop text cs ov start chunks =
     Some (chunks @ emitted text (win (int (length text)) cs ov start))"
proof (induction "int (length text)" cs ov start arbitrary: chunks rule: win.induct)
  case (1 cs ov start)
  show ?case
  proof (cases "start < int (length text)")
    case False
    then show ?thesis by (simp add: chunk_loop.simps win.simps emitted_def)
  next
    case True
    show ?thesis
    proof (cases "start + cs < int (length text)")
      case False
      with True show ?thesis
        by (subst chunk_loop.simps, subst win.simps) (simp add: Let_def min_def emitted_def)
    next
      case more: True
      define chunk where "chunk = strip (py_slice text start (start + cs))"
      define chunks' where "chunks' = (if chunk \<noteq> [] then chunks @ [chunk] else chunks)"
      have "chunk_loop text cs ov start chunks =
            chunk_loop text cs ov (start + cs - ov) chunks'"
        using True more by (subst chunk_loop.simps) (simp add: Let_def min_def chunk_def chunks'_def)
      also have "\<dots> = Some (chunks' @ emitted text (win (int (length text)) cs ov (start + cs - ov)))"
        using "1.hyps" [OF True] more "1.prems" by simp
      also have "\<dots> = Some (chunks @ emitted text (win (int (length text)) cs ov start))"
        using True more "1.prems"
        by (subst (2) win.simps) (simp add: emitted_def chunk_def chunks'_def)
      finally show ?thesis .
    qed
  qed
qed

lemma win_empty_iff: "win len cs ov start = [] \<longleftrightarrow> len \<le> start"
  by (subst win.simps) auto

lemma win_hd: "start < len \<Longrightarrow> fst (hd (win len cs ov start)) = start"
  by (subst win.simps) auto

lemma win_bounds:
  "ov < cs \<Longrightarrow> 0 \<le> ov \<Longrightarrow> (s, e) \<in> set (win len cs ov start) \<Longrightarrow>
     start \<le> s \<and> s < e \<and> e \<le> len \<and> e - s \<le> cs"
proof (induction len cs ov start rule: win.induct)
  case (1 len cs ov start)
  show ?case
  proof (cases "start < len \<and> start + cs < len")
    case True
    then have "win len cs ov start = (start, start + cs) # win len cs ov (start + cs - ov)"
      using "1.prems" by (subst win.simps) simp
    with "1.prems" have "(s, e) = (start, start + cs) \<or> (s, e) \<in> set (win len cs ov (start + cs - ov))"
      by simp
    then show ?thesis
    proof
      assume "(s, e) = (start, start + cs)"
      with True "1.prems" show ?thesis by auto
    next
      assume mem: "(s, e) \<in> set (win len cs ov (start + cs - ov))"
      have "start + cs - ov \<le> s \<and> s < e \<and> e \<le> len \<and> e - s \<le> cs"
        using "1.IH" True "1.prems"(1,2) mem by simp
      with "1.prems" show ?thesis by auto
    qed
  next
    case False
    have "win len cs ov start = (if start < len then [(start, min (start + cs) len)] else [])"
      using False by (subst win.simps) auto
    with "1.prems" False show ?thesis
      by (auto split: if_splits)
  qed
qed

lemma win_last:
  "ov < cs \<Longrightarrow> 0 \<le> ov \<Longrightarrow> start < len \<Longrightarrow> snd (last (win len cs ov start)) = len"
proof (induction len cs ov start rule: win.induct)
  case (1 len cs ov start)
  show ?case
  proof (cases "start + cs < len")
    case True
    then have eq: "win len cs ov start = (start, start + cs) # win len cs ov (start + cs - ov)"
      using "1.prems" by (subst win.simps) simp
    have ne: "win len cs ov (start + cs - ov) \<noteq> []"
      using True "1.prems" by (simp add: win_empty_iff)
    have "snd (last (win len cs ov (start + cs - ov))) = len"
      using "1.IH" "1.prems" True by simp
    with eq ne show ?thesis by simp
  next
    case False
    with "1.prems" show ?thesis by (subst win.simps) simp
  qed
qed

lemma win_step:
  "ov < cs \<Longrightarrow> Suc i < length (win len cs ov start) \<Longrightarrow>
     fst (win len cs ov start ! Suc i) = fst (win len cs ov start ! i) + (cs - ov) \<and>
     snd (win len cs ov start ! i) = fst (win len cs ov start ! i) + cs \<and>
     snd (win len cs ov start ! i) < len"
proof (induction len cs ov start arbitrary: i rule: win.induct)
  case (1 len cs ov start)
  have cont: "start < len \<and> start + cs < len"
  proof (rule ccontr)
    assume "\<not> ?thesis"
    then have "length (win len cs ov start) \<le> 1" by (subst win.simps) auto
    with "1.prems" show False by simp
  qed
  then have eq: "win len cs ov start = (start, start + cs) # win len cs ov (start + cs - ov)"
    using "1.prems" by (subst win.simps) simp
  show ?case
  proof (cases i)
    case 0
    have "start + cs - ov < len" using "1.prems" eq 0 by (auto simp: win_empty_iff)
    then have "fst (hd (win len cs ov (start + cs - ov))) = start + cs - ov"
      by (rule win_hd)
    moreover have "win len cs ov (start + cs - ov) \<noteq> []"
      using "1.prems" eq 0 by auto
    ultimately have "fst (win len cs ov (start + cs - ov) ! 0) = start + cs - ov"
      by (simp add: hd_conv_nth)
    with eq 0 cont show ?thesis by simp
  next
    case (Suc j)
    have "Suc j < length (win len cs ov (start + cs - ov))"
      using "1.prems" eq Suc by simp
    from "1.IH" [OF _ _ "1.prems"(1) this] cont "1.prems"(1)
    show ?thesis using eq Suc by simp
  qed
qed

lemma length_py_slice:
  assumes "0 \<le> s" "s \<le> e"
  shows "length (py_slice xs s e) \<le> nat (e - s)"
proof -
  have "length (py_slice xs s e) \<le> slice_index (length xs) e - slice_index (length xs) s"
    by (simp add: py_slice_def Let_def)
  also have "\<dots> \<le> nat (e - s)"
    using assms unfolding slice_index_def by (simp add: min_def) linarith
  finally show ?thesis .
qed

lemma length_strip: "length (strip s) \<le> length s"
proof -
  have "length (strip s) = length (dropWhile py_isspace (rev (dropWhile py_isspace s)))"
    by (simp add: strip_def)
  also have "\<dots> \<le> length (rev (dropWhile py_isspace s))"
    by (rule length_dropWhile_le)
  also have "\<dots> = length (dropWhile py_isspace s)"
    by simp
  also have "\<dots> \<le> length s"
    by (rule length_dropWhile_le)
  finally show ?thesis .
qed

lemma py_slice_tail:
  "0 \<le> a \<Longrightarrow> int (length xs) \<le> e \<Longrightarrow> py_slice xs a e = drop (nat a) xs"
  by (auto simp: py_slice_def slice_index_def Let_def min_def)

lemma py_slice_mid:
  assumes "0 \<le> a" "a \<le> e"
  shows "py_slice xs a e @ drop (nat e) xs = drop (nat a) xs"
proof -
  have "take (nat e - nat a) (drop (nat a) xs) @ drop (nat e - nat a) (drop (nat a) xs) = drop (nat a) xs"
    by (rule append_take_drop_id)
  moreover have "drop (nat e - nat a) (drop (nat a) xs) = drop (nat e) xs"
    using assms by (simp add: nat_le_eq_zle)
  moreover have "py_slice xs a e = take (nat e - nat a) (drop (nat a) xs)"
    using assms by (auto simp: py_slice_def slice_index_def Let_def min_def)
  ultimately show ?thesis by simp
qed

lemma win_fresh_tail:
  "ov < cs \<Longrightarrow> 0 \<le> ov \<Longrightarrow> 0 \<le> start \<Longrightarrow>
     concat (map (\<lambda>(s, e). py_slice text (s + ov) e) (win (int (length text)) cs ov start))
       = drop (nat (start + ov)) text"
proof (induction "int (length text)" cs ov start rule: win.induct)
  case (1 cs ov start)
  show ?case
  proof (cases "start < int (length text)")
    case False
    then show ?thesis using "1.prems" by (subst win.simps) simp
  next
    case True
    show ?thesis
    proof (cases "start + cs < int (length text)")
      case False
      with True "1.prems" show ?thesis
        by (subst win.simps) (simp add: py_slice_tail)
    next
      case more: True
      have eq: "win (int (length text)) cs ov start =
                (start, start + cs) # win (int (length text)) cs ov (start + cs - ov)"
        using True more "1.prems" by (subst win.simps) simp
      have ih: "concat (map (\<lambda>(s, e). py_slice text (s + ov) e)
                  (win (int (length text)) cs ov (start + cs - ov))) = drop (nat (start + cs)) text"
        using "1.hyps" True more "1.prems" by simp
      have "py_slice text (start + ov) (start + cs) @ drop (nat (start + cs)) text
              = drop (nat (start + ov)) text"
        using "1.prems" by (intro py_slice_mid) auto
      with eq ih show ?thesis by simp
    qed
  qed
qed

lemma win_fresh_parts:
  assumes "ov < cs" "0 \<le> ov"
  shows "concat (fresh_parts text ov (win (int (length text)) cs ov 0)) = text"
proof (cases "text = []")
  case True
  then show ?thesis by (subst win.simps) simp
next
  case False
  then have pos: "0 < int (length text)" by simp
  show ?thesis
  proof (cases "cs < int (length text)")
    case False
    with pos show ?thesis
      by (subst win.simps) (simp add: py_slice_tail)
  next
    case True
    have eq: "win (int (length text)) cs ov 0 = (0, cs) # win (int (length text)) cs ov (cs - ov)"
      using True pos assms by (subst win.simps) simp
    have "concat (map (\<lambda>(s, e). py_slice text (s + ov) e) (win (int (length text)) cs ov (cs - ov)))
            = drop (nat cs) text"
      using win_fresh_tail [of ov cs "cs - ov" "text"] assms by simp
    moreover have "py_slice text 0 cs @ drop (nat cs) text = drop (nat 0) text"
      using assms by (intro py_slice_mid) auto
    ultimately show ?thesis using eq by simp
  qed
qed

lemma clamp_overlap_range: "0 < cs \<Longrightarrow> 0 \<le> clamp_overlap cs k \<and> clamp_overlap cs k < cs"
  by (simp add: clamp_overlap_def)

lemma clamp_overlap_id: "0 \<le> k \<Longrightarrow> k < cs \<Longrightarrow> clamp_overlap cs k = k"
  by (simp add: clamp_overlap_def)

lemma chunk_text_win:
  assumes "0 < cs"
  shows "chunk_text text cs k =
           Some (Inr (emitted text (win (int (length text)) cs (clamp_overlap cs k) 0)))"
proof -
  have "clamp_overlap cs k < cs" using assms by (simp add: clamp_overlap_range)
  then have "chunk_loop text cs (clamp_overlap cs k) 0 [] =
               Some ([] @ emitted text (win (int (length text)) cs (clamp_overlap cs k) 0))"
    by (rule chunk_loop_win)
  with assms show ?thesis by (simp add: chunk_text_def)
qed

lemma emitted_nonempty: "c \<in> set (emitted text ws) \<Longrightarrow> c \<noteq> []"
  by (simp add: emitted_def)

lemma emitted_length:
  assumes "\<forall>(s, e) \<in> set ws. 0 \<le> s \<and> s \<le> e \<and> e - s \<le> cs" "c \<in> set (emitted text ws)"
  shows "int (length c) \<le> cs"
proof -
  from assms(2) obtain s e where mem: "(s, e) \<in> set ws" and c: "c = strip (py_slice text s e)"
    by (auto simp: emitted_def)
  from assms(1) mem have b: "0 \<le> s" "s \<le> e" "e - s \<le> cs" by auto
  have "length c \<le> length (py_slice text s e)" unfolding c by (rule length_strip)
  also have "\<dots> \<le> nat (e - s)" using b by (intro length_py_slice)
  finally show ?thesis using b by simp
qed

lemma filter_dropWhile_neg: "filter P (dropWhile (\<lambda>x. \<not> P x) xs) = filter P xs"
  by (induction xs) auto

lemma filter_strip:
  "filter (\<lambda>c. \<not> py_isspace c) (strip w) = filter (\<lambda>c. \<not> py_isspace c) w"
proof -
  have d: "\<And>xs. filter (\<lambda>c. \<not> py_isspace c) (dropWhile py_isspace xs) = filter (\<lambda>c. \<not> py_isspace c) xs"
    using filter_dropWhile_neg [of "\<lambda>c. \<not> py_isspace c"] by simp
  show ?thesis by (simp add: strip_def rev_filter [symmetric] d)
qed

lemma strip_empty_iff: "strip w = [] \<longleftrightarrow> filter (\<lambda>c. \<not> py_isspace c) w = []"
proof
  assume "strip w = []"
  then show "filter (\<lambda>c. \<not> py_isspace c) w = []"
    using filter_strip [of w] by simp
next
  assume e: "filter (\<lambda>c. \<not> py_isspace c) w = []"
  then have "\<forall>c \<in> set w. py_isspace c" by (auto simp: filter_empty_conv)
  then have d: "dropWhile py_isspace w = []" unfolding dropWhile_eq_Nil_conv .
  show "strip w = []" unfolding strip_def d by simp
qed



text \<open>
  Claim C8.  \<open>chunk_text\<close> fails if and only if \<open>chunk_size \<le> 0\<close>, and the failure is
  then the \<open>ValueError\<close> raised at its first line (the configuration error of the
  specification); for every positive chunk size, every text and every overlap it
  returns a list of chunks.
\<close>

theorem chunk_text_invalid_configuration_iff:
  "((\<exists>e. chunk_text text chunk_size chunk_overlap = Some (Inl e)) \<longleftrightarrow> chunk_size \<le> 0) \<and>
   (chunk_size \<le> 0 \<longrightarrow>
      chunk_text text chunk_size chunk_overlap = Some (Inl (ValueError ''chunk_size must be positive''))) \<and>
   (0 < chunk_size \<longrightarrow> (\<exists>chunks. chunk_text text chunk_size chunk_overlap = Some (Inr chunks)))"
proof (cases "chunk_size \<le> 0")
  case True
  then show ?thesis by (simp add: chunk_text_def)
next
  case False
  then have "0 < chunk_size" by simp
  from chunk_text_win [OF this, of "text" chunk_overlap] False show ?thesis by simp
qed

theorem chunk_text_invalid_configuration_iff_witness:
  "(0::int) < 3 \<and> (\<exists>chunks. chunk_text ''ab cde'' 3 7 = Some (Inr chunks)) \<and>
   (0::int) \<le> 0 \<and> chunk_text ''ab cde'' 0 7 = Some (Inl (ValueError ''chunk_size must be positive''))"
  using chunk_text_invalid_configuration_iff [of "''ab cde''" 3 7]
        chunk_text_invalid_configuration_iff [of "''ab cde''" 0 7]
  by simp

text \<open>
  Claim C9.  A text no longer than a positive chunk size yields exactly one chunk, the
  stripped text, or no chunk when the text strips to empty; the empty text yields
  no chunk, whatever the overlap.
\<close>

theorem chunk_text_short_text:
  assumes "0 < chunk_size"
  shows "(int (length text) \<le> chunk_size \<longrightarrow>
            chunk_text text chunk_size chunk_overlap =
              Some (Inr (if strip text = [] then [] else [strip text]))) \<and>
         chunk_text [] chunk_size chunk_overlap = Some (Inr [])"
proof -
  have short: "emitted t (win (int (length t)) chunk_size ov 0) = (if strip t = [] then [] else [strip t])"
    if "int (length t) \<le> chunk_size" for t ov
  proof (cases "t = []")
    case True
    then show ?thesis by (subst win.simps) (simp add: emitted_def strip_def)
  next
    case False
    then have "win (int (length t)) chunk_size ov 0 = [(0, int (length t))]"
      using that by (subst win.simps) (simp add: min_def)
    moreover have "py_slice t 0 (int (length t)) = t"
      by (simp add: py_slice_tail)
    ultimately show ?thesis by (simp add: emitted_def)
  qed
  have e: "chunk_text [] chunk_size chunk_overlap = Some (Inr [])"
    using short [of "[]"] assms by (simp add: chunk_text_win strip_def)
  show ?thesis using short [of "text"] e assms by (simp add: chunk_text_win)
qed

theorem chunk_text_short_text_witness:
  "(0::int) < 10 \<and> int (length ''  hi  '') \<le> 10 \<and>
   chunk_text ''  hi  '' 10 3 = Some (Inr [''hi'']) \<and>
   chunk_text ''   '' 10 3 = Some (Inr []) \<and>
   chunk_text [] 10 3 = Some (Inr [])"
proof -
  have s1: "strip ''  hi  '' = ''hi''" by code_simp
  have s2: "strip ''   '' = []" by code_simp
  show ?thesis
    using chunk_text_short_text [of 10 "''  hi  ''" 3] chunk_text_short_text [of 10 "''   ''" 3]
    by (simp add: s1 s2)
qed

text \<open>
  Claim C10.  For a positive chunk size, every chunk returned by \<open>chunk_text\<close> has at
  most \<open>chunk_size\<close> characters, whatever the text and the overlap.
\<close>

theorem chunk_text_length_bound:
  assumes "0 < chunk_size"
  shows "\<exists>chunks. chunk_text text chunk_size chunk_overlap = Some (Inr chunks) \<and>
           (\<forall>c \<in> set chunks. int (length c) \<le> chunk_size)"
proof -
  define ov where "ov = clamp_overlap chunk_size chunk_overlap"
  have ov: "0 \<le> ov" "ov < chunk_size"
    using assms by (simp_all add: ov_def clamp_overlap_range)
  have b: "\<forall>(s, e) \<in> set (win (int (length text)) chunk_size ov 0).
             0 \<le> s \<and> s \<le> e \<and> e - s \<le> chunk_size"
    using win_bounds [OF ov(2) ov(1)] by fastforce
  have "\<forall>c \<in> set (emitted text (win (int (length text)) chunk_size ov 0)). int (length c) \<le> chunk_size"
    using emitted_length [OF b] by blast
  then show ?thesis
    using assms by (simp add: chunk_text_win ov_def)
qed

theorem chunk_text_length_bound_witness:
  "(0::int) < 5 \<and>
   (\<exists>chunks. chunk_text ''  hello world  '' 5 (-2) = Some (Inr chunks) \<and>
      (\<forall>c \<in> set chunks. int (length c) \<le> 5)) \<and>
   chunk_text ''  hello world  '' 5 (-2) = Some (Inr [''hel'', ''lo wo'', ''rld''])"
proof -
  have v: "chunk_text ''  hello world  '' 5 (-2) = Some (Inr [''hel'', ''lo wo'', ''rld''])"
    by code_simp
  have "\<exists>chunks. chunk_text ''  hello world  '' 5 (-2) = Some (Inr chunks) \<and>
      (\<forall>c \<in> set chunks. int (length c) \<le> 5)"
    by (rule chunk_text_length_bound) simp
  with v show ?thesis by simp
qed

lemma emitted_content:
  "map (filter (\<lambda>c. \<not> py_isspace c)) (emitted text ws) =
     filter (\<lambda>c. c \<noteq> []) (map (\<lambda>(s, e). filter (\<lambda>c. \<not> py_isspace c) (py_slice text s e)) ws)"
  by (induction ws) (auto simp: emitted_def filter_strip strip_empty_iff)

text \<open>
  Claim C4.  For a positive chunk size and any caller-supplied overlap, the overlap
  used lies in \<open>[0, chunk_size - 1]\<close>, so the step \<open>chunk_size - overlap\<close> is at least 1;
  the scan returns for every text; each window starts exactly one step after the one
  before it; and only the last window reaches the end of the text, every earlier one
  ending strictly before it.
\<close>

theorem chunk_text_clamps_and_terminates:
  assumes "0 < chunk_size"
  shows "0 \<le> clamp_overlap chunk_size chunk_overlap \<and>
         clamp_overlap chunk_size chunk_overlap \<le> chunk_size - 1 \<and>
         1 \<le> chunk_size - clamp_overlap chunk_size chunk_overlap \<and>
         (\<exists>chunks ws.
            chunk_text text chunk_size chunk_overlap = Some (Inr chunks) \<and>
            chunk_windows text chunk_size (clamp_overlap chunk_size chunk_overlap) 0 [] = Some ws \<and>
            chunks = emitted text ws \<and>
            (\<forall>i. Suc i < length ws \<longrightarrow>
               fst (ws ! Suc i) = fst (ws ! i) + (chunk_size - clamp_overlap chunk_size chunk_overlap) \<and>
               snd (ws ! i) < int (length text)) \<and>
            (ws = [] \<longleftrightarrow> text = []) \<and>
            (ws \<noteq> [] \<longrightarrow> fst (hd ws) = 0 \<and> snd (last ws) = int (length text)))"
proof -
  define ov where "ov = clamp_overlap chunk_size chunk_overlap"
  define ws where "ws = win (int (length text)) chunk_size ov 0"
  have ov: "0 \<le> ov" "ov < chunk_size"
    using assms by (simp_all add: ov_def clamp_overlap_range)
  have w: "chunk_windows text chunk_size ov 0 [] = Some ws"
    using chunk_windows_win [OF ov(2), of "text" 0 "[]"] by (simp add: ws_def)
  have c: "chunk_text text chunk_size chunk_overlap = Some (Inr (emitted text ws))"
    using assms by (simp add: chunk_text_win ws_def ov_def)
  have step: "\<forall>i. Suc i < length ws \<longrightarrow>
               fst (ws ! Suc i) = fst (ws ! i) + (chunk_size - ov) \<and> snd (ws ! i) < int (length text)"
  proof (intro allI impI)
    fix i
    assume "Suc i < length ws"
    then show "fst (ws ! Suc i) = fst (ws ! i) + (chunk_size - ov) \<and> snd (ws ! i) < int (length text)"
      using win_step [OF ov(2), of i "int (length text)" 0] by (simp add: ws_def)
  qed
  have emp: "ws = [] \<longleftrightarrow> text = []"
    by (simp add: ws_def win_empty_iff)
  have ends: "fst (hd ws) = 0 \<and> snd (last ws) = int (length text)" if "ws \<noteq> []"
  proof -
    from that emp have "0 < int (length text)" by simp
    then show ?thesis
      using win_hd [of 0 "int (length text)" chunk_size ov] win_last [OF ov(2) ov(1), of 0 "int (length text)"]
      by (simp add: ws_def)
  qed
  show ?thesis
    using ov w c step emp ends unfolding ov_def [symmetric] by auto
qed

theorem chunk_text_clamps_and_terminates_witness:
  "(0::int) < 5 \<and> clamp_overlap 5 7 = 4 \<and> clamp_overlap 5 (-2) = 0 \<and>
   (\<exists>chunks ws.
      chunk_text ''hello world'' 5 7 = Some (Inr chunks) \<and>
      chunk_windows ''hello world'' 5 (clamp_overlap 5 7) 0 [] = Some ws \<and>
      chunks = emitted ''hello world'' ws \<and>
      (\<forall>i. Suc i < length ws \<longrightarrow>
         fst (ws ! Suc i) = fst (ws ! i) + (5 - clamp_overlap 5 7) \<and>
         snd (ws ! i) < int (length ''hello world'')) \<and>
      (ws = [] \<longleftrightarrow> ''hello world'' = []) \<and>
      (ws \<noteq> [] \<longrightarrow> fst (hd ws) = 0 \<and> snd (last ws) = int (length ''hello world''))) \<and>
   chunk_windows ''hello world'' 5 4 0 [] =
     Some [(0, 5), (1, 6), (2, 7), (3, 8), (4, 9), (5, 10), (6, 11)]"
proof -
  have a: "clamp_overlap 5 7 = 4" "clamp_overlap 5 (-2) = 0"
    by (simp_all add: clamp_overlap_def)
  have b: "chunk_windows ''hello world'' 5 4 0 [] =
     Some [(0, 5), (1, 6), (2, 7), (3, 8), (4, 9), (5, 10), (6, 11)]"
    by code_simp
  have c: "(0::int) < 5" by simp
  note t = chunk_text_clamps_and_terminates [OF c, of 7 "''hello world''"]
  show ?thesis
  proof (intro conjI)
    show "(0::int) < 5" by (rule c)
    show "clamp_overlap 5 7 = 4" by (rule a)
    show "clamp_overlap 5 (-2) = 0" by (rule a)
    show "chunk_windows ''hello world'' 5 4 0 [] =
      Some [(0, 5), (1, 6), (2, 7), (3, 8), (4, 9), (5, 10), (6, 11)]" by (rule b)
  qed (rule t [THEN conjunct2, THEN conjunct2, THEN conjunct2])
qed

text \<open>
  Claim C3.  For a positive chunk size and an overlap in \<open>[0, chunk_size)\<close>, no chunk
  returned by \<open>chunk_text\<close> is empty; the chunks are the non-empty stripped windows,
  each holding exactly the non-whitespace content of its window; and the
  non-overlapping portions of the successive windows, concatenated, give back the
  text, hence its non-whitespace content in order.
\<close>

theorem chunk_text_nonempty_and_covering:
  assumes "0 < chunk_size" "0 \<le> overlap" "overlap < chunk_size"
  shows "\<exists>chunks ws.
           chunk_text text chunk_size overlap = Some (Inr chunks) \<and>
           (\<forall>c \<in> set chunks. c \<noteq> []) \<and>
           chunk_windows text chunk_size overlap 0 [] = Some ws \<and>
           chunks = emitted text ws \<and>
           map (filter (\<lambda>c. \<not> py_isspace c)) chunks =
             filter (\<lambda>c. c \<noteq> [])
               (map (\<lambda>(s, e). filter (\<lambda>c. \<not> py_isspace c) (py_slice text s e)) ws) \<and>
           concat (fresh_parts text overlap ws) = text \<and>
           filter (\<lambda>c. \<not> py_isspace c) (concat (fresh_parts text overlap ws)) =
             filter (\<lambda>c. \<not> py_isspace c) text"
proof -
  define ws where "ws = win (int (length text)) chunk_size overlap 0"
  have ov: "clamp_overlap chunk_size overlap = overlap"
    using assms by (simp add: clamp_overlap_id)
  have w: "chunk_windows text chunk_size overlap 0 [] = Some ws"
    using chunk_windows_win [OF assms(3), of "text" 0 "[]"] by (simp add: ws_def)
  have c: "chunk_text text chunk_size overlap = Some (Inr (emitted text ws))"
    using assms(1) by (simp add: chunk_text_win ws_def ov)
  have ne: "\<forall>c \<in> set (emitted text ws). c \<noteq> []"
    by (simp add: emitted_def)
  have cover: "concat (fresh_parts text overlap ws) = text"
    unfolding ws_def using assms(3,2) by (rule win_fresh_parts)
  show ?thesis
    using w c ne cover emitted_content [of "text" ws] by simp
qed

theorem chunk_text_nonempty_and_covering_witness:
  "(0::int) < 3 \<and> (0::int) \<le> 1 \<and> (1::int) < 3 \<and>
   (\<exists>chunks ws.
      chunk_text ''ab cde'' 3 1 = Some (Inr chunks) \<and>
      (\<forall>c \<in> set chunks. c \<noteq> []) \<and>
      chunk_windows ''ab cde'' 3 1 0 [] = Some ws \<and>
      chunks = emitted ''ab cde'' ws \<and>
      map (filter (\<lambda>c. \<not> py_isspace c)) chunks =
        filter (\<lambda>c. c \<noteq> [])
          (map (\<lambda>(s, e). filter (\<lambda>c. \<not> py_isspace c) (py_slice ''ab cde'' s e)) ws) \<and>
      concat (fresh_parts ''ab cde'' 1 ws) = ''ab cde'' \<and>
      filter (\<lambda>c. \<not> py_isspace c) (concat (fresh_parts ''ab cde'' 1 ws)) =
        filter (\<lambda>c. \<not> py_isspace c) ''ab cde'') \<and>
   chunk_text ''ab cde'' 3 1 = Some (Inr [''ab'', ''cd'', ''de'']) \<and>
   chunk_windows ''ab cde'' 3 1 0 [] = Some [(0, 3), (2, 5), (4, 6)] \<and>
   fresh_parts ''ab cde'' 1 [(0, 3), (2, 5), (4, 6)] = [''ab '', ''cd'', ''e'']"
proof -
  have a: "chunk_text ''ab cde'' 3 1 = Some (Inr [''ab'', ''cd'', ''de''])"
    by code_simp
  have b: "chunk_windows ''ab cde'' 3 1 0 [] = Some [(0, 3), (2, 5), (4, 6)]"
    by code_simp
  have c: "fresh_parts ''ab cde'' 1 [(0, 3), (2, 5), (4, 6)] = [''ab '', ''cd'', ''e'']"
    by code_simp
  have h: "(0::int) < 3" "(0::int) \<le> 1" "(1::int) < 3" by simp_all
  note t = chunk_text_nonempty_and_covering [OF h, of "''ab cde''"]
  show ?thesis
  proof (intro conjI)
    show "(0::int) < 3" "(0::int) \<le> 1" "(1::int) < 3" by (rule h)+
    show "chunk_text ''ab cde'' 3 1 = Some (Inr [''ab'', ''cd'', ''de''])" by (rule a)
    show "chunk_windows ''ab cde'' 3 1 0 [] = Some [(0, 3), (2, 5), (4, 6)]" by (rule b)
    show "fresh_parts ''ab cde'' 1 [(0, 3), (2, 5), (4, 6)] = [''ab '', ''cd'', ''e'']" by (rule c)
  qed (rule t)
qed

text \<open>
  The portions are those of the windows, not of the returned chunks: stripping moves
  the start of a chunk, so dropping the first \<open>overlap\<close> characters of each later
  returned chunk can lose content, as on \<open>''ab cde''\<close> with size 3 and overlap 1.
\<close>

lemma returned_chunks_minus_overlap_example:
  "chunk_text ''ab cde'' 3 1 = Some (Inr [''ab'', ''cd'', ''de'']) \<and>
   concat (''ab'' # map (drop 1) [''cd'', ''de'']) = ''abde'' \<and>
   filter (\<lambda>c. \<not> py_isspace c) ''ab cde'' = ''abcde''"
  by code_simp

section \<open>Properties of the indexing and query pipelines\<close>

lemma create_collection_fields:
  "doc_store_file (create_collection name w) = doc_store_file w"
  "calls (create_collection name w) = calls w"
  by (simp_all add: create_collection_def split: option.split)

lemma recreate_collection_fields:
  "doc_store_file (recreate_collection name w) = doc_store_file w"
  "calls (recreate_collection name w) = calls w"
  by (simp_all add: recreate_collection_def)

lemma build_chunks_total: "\<exists>r. build_chunks ds cs co acc = Some r"
proof (induction ds arbitrary: acc)
  case Nil
  show ?case by simp
next
  case (Cons d ds)
  show ?case
  proof (cases "cs \<le> 0")
    case True
    then show ?thesis by (simp add: chunk_text_def)
  next
    case False
    then have "0 < cs" by simp
    then show ?thesis using Cons.IH by (simp add: chunk_text_win)
  qed
qed

lemma map_of_fold_docstore_add:
  "map_of (fold docstore_add ds d0) =
     map_of d0 ++ map_of (rev (map (\<lambda>d. (doc_id d, stored_of d)) ds))"
proof (induction ds arbitrary: d0)
  case Nil
  show ?case by simp
next
  case (Cons d ds)
  have "map_of (fold docstore_add (d # ds) d0) = map_of (fold docstore_add ds (docstore_add d d0))"
    by simp
  also have "\<dots> = map_of (docstore_add d d0) ++ map_of (rev (map (\<lambda>d. (doc_id d, stored_of d)) ds))"
    by (rule Cons.IH)
  also have "map_of (docstore_add d d0) = (map_of d0)(doc_id d \<mapsto> stored_of d)"
    by (simp add: docstore_add_def update_conv')
  also have "(map_of d0)(doc_id d \<mapsto> stored_of d) ++ map_of (rev (map (\<lambda>d. (doc_id d, stored_of d)) ds))
      = map_of d0 ++ map_of (rev (map (\<lambda>d. (doc_id d, stored_of d)) (d # ds)))"
    by (simp add: map_add_upd_left fun_eq_iff map_add_def split: option.split)
  finally show ?case .
qed

lemma keys_fold_docstore_add:
  "fst ` set (fold docstore_add ds d0) = fst ` set d0 \<union> doc_id ` set ds"
proof -
  have "fst ` set (fold docstore_add ds d0) = dom (map_of (fold docstore_add ds d0))"
    by (simp add: dom_map_of_conv_image_fst)
  also have "\<dots> = dom (map_of d0) \<union> dom (map_of (rev (map (\<lambda>d. (doc_id d, stored_of d)) ds)))"
    by (simp add: map_of_fold_docstore_add Un_commute)
  also have "\<dots> = fst ` set d0 \<union> doc_id ` set ds"
    by (simp add: dom_map_of_conv_image_fst image_image)
  finally show ?thesis .
qed

text \<open>
  Once the client is available and the store is loaded (or cleared), \<open>build_index\<close> is
  the rest of its body on the store with the loaded documents added.
\<close>

lemma store_prefix:
  assumes "chromadb_available ev"
    and "(if rebuild then Inr [] else docstore_load (doc_store_file w)) = Inr d0"
  shows "build_index ev ds docs_dir data_dir name cs co emb rebuild w =
    (let w1 = (if rebuild then recreate_collection name w else create_collection name w);
         w2 = (if rebuild then w1\<lparr>doc_store_file := NoFile\<rparr> else w1);
         w3 = w2\<lparr>doc_store_file := JsonDict (fold docstore_add ds d0)\<rparr>
     in
     (case build_chunks ds cs co [] of
        None \<Rightarrow> None
      | Some (Inl e) \<Rightarrow> Some (Inl e, w3)
      | Some (Inr chunks) \<Rightarrow>
     if chunks = [] then
       Some (Inr \<lparr>s_docs_dir = docs_dir, s_data_dir = data_dir, s_collection = name,
                  doc_count = length ds, chunk_count = 0\<rparr>, w3)
     else
     (case (case emb of Some f \<Rightarrow> Inr f | None \<Rightarrow> get_embedder ev) of
        Inl e \<Rightarrow> Some (Inl e, w3)
      | Inr f \<Rightarrow>
     let w4 = w3\<lparr>calls := calls w3 @ [EmbedTexts (map chunk_content chunks)]\<rparr>
     in
     (case f (map chunk_content chunks) of
        Inl e \<Rightarrow> Some (Inl e, w4)
      | Inr vectors \<Rightarrow>
     let p = \<lparr>ids = map chunk_id chunks,
              documents = map chunk_content chunks,
              metadatas = map chunk_metadata chunks,
              embeddings = vectors\<rparr>;
         w5 = w4\<lparr>calls := calls w4 @ [if has_upsert ev then CollUpsert p else CollAdd p]\<rparr>
     in
     (case (if has_upsert ev then coll_upsert ev p (the_collection name w5)
            else coll_add ev p (the_collection name w5)) of
        Inl e \<Rightarrow> Some (Inl e, w5)
      | Inr c \<Rightarrow>
          Some (Inr \<lparr>s_docs_dir = docs_dir, s_data_dir = data_dir, s_collection = name,
                     doc_count = length ds, chunk_count = length chunks\<rparr>,
                w5\<lparr>collections := AList.update name c (collections w5)\<rparr>))))))"
proof (cases rebuild)
  case True
  with assms show ?thesis
    by (simp add: build_index_def ensure_chroma_client_def Let_def)
next
  case False
  with assms show ?thesis
    by (simp add: build_index_def ensure_chroma_client_def Let_def create_collection_fields)
qed

lemma build_index_store_file:
  assumes "chromadb_available ev"
    and "(if rebuild then Inr [] else docstore_load (doc_store_file w)) = Inr d0"
  shows "\<exists>r w'. build_index ev ds docs_dir data_dir name cs co emb rebuild w = Some (r, w') \<and>
           doc_store_file w' = JsonDict (fold docstore_add ds d0)"
proof -
  obtain r where r: "build_chunks ds cs co [] = Some r"
    using build_chunks_total by blast
  show ?thesis
    unfolding store_prefix [OF assms] r
    by (simp add: Let_def split: sum.split option.split)
qed

text \<open>
  Claim C2.  With \<open>rebuild=False\<close> the build starts from the loaded store and only adds
  or overwrites the records of the loaded documents: every other record stays as it
  was, so the keys afterwards are the old keys together with the loaded ids.  With
  \<open>rebuild=True\<close> it starts from the empty store, so the keys afterwards are exactly the
  loaded ids.  In both cases the store file written holds the result.
\<close>

theorem build_index_store_contents:
  assumes "chromadb_available ev"
    and "(if rebuild then Inr [] else docstore_load (doc_store_file w)) = Inr d0"
  shows "(\<exists>r w'. build_index ev ds docs_dir data_dir name cs co emb rebuild w = Some (r, w') \<and>
                  doc_store_file w' = JsonDict (fold docstore_add ds d0)) \<and>
         map_of (fold docstore_add ds d0) =
           map_of d0 ++ map_of (rev (map (\<lambda>d. (doc_id d, stored_of d)) ds)) \<and>
         fst ` set (fold docstore_add ds d0) = fst ` set d0 \<union> doc_id ` set ds \<and>
         (\<forall>k. k \<notin> doc_id ` set ds \<longrightarrow> map_of (fold docstore_add ds d0) k = map_of d0 k) \<and>
         (rebuild \<longrightarrow> d0 = [] \<and> fst ` set (fold docstore_add ds d0) = doc_id ` set ds)"
proof -
  define d1 where "d1 = fold docstore_add ds d0"
  have b: "\<exists>r w'. build_index ev ds docs_dir data_dir name cs co emb rebuild w = Some (r, w') \<and>
                  doc_store_file w' = JsonDict d1"
    unfolding d1_def by (rule build_index_store_file [OF assms])
  have m: "map_of d1 = map_of d0 ++ map_of (rev (map (\<lambda>d. (doc_id d, stored_of d)) ds))"
    unfolding d1_def by (rule map_of_fold_docstore_add)
  have k: "fst ` set d1 = fst ` set d0 \<union> doc_id ` set ds"
    unfolding d1_def by (rule keys_fold_docstore_add)
  have stale: "\<forall>k. k \<notin> doc_id ` set ds \<longrightarrow> map_of d1 k = map_of d0 k"
  proof (intro allI impI)
    fix k
    assume "k \<notin> doc_id ` set ds"
    then have "k \<notin> dom (map_of (rev (map (\<lambda>d. (doc_id d, stored_of d)) ds)))"
      by (simp add: dom_map_of_conv_image_fst image_image)
    then show "map_of d1 k = map_of d0 k"
      unfolding m by (simp add: map_add_dom_app_simps)
  qed
  have rb: "rebuild \<longrightarrow> d0 = [] \<and> fst ` set d1 = doc_id ` set ds"
  proof
    assume rebuild
    with assms(2) have "d0 = []" by simp
    with k show "d0 = [] \<and> fst ` set d1 = doc_id ` set ds" by simp
  qed
  from b m k stale rb show ?thesis unfolding d1_def by (intro conjI)
qed

lemma incremental_example:
  "build_index (simple_env no_hits) [doc_a, doc_c] ''docs'' ''data'' ''rag_docs'' 200 20 None False world_ab
     = Some (Inr \<lparr>s_docs_dir = ''docs'', s_data_dir = ''data'', s_collection = ''rag_docs'',
                  doc_count = 2, chunk_count = 2\<rparr>,
             \<lparr>doc_store_file = JsonDict [(''A'', stored_of doc_a), (''B'', stored_of doc_b), (''C'', stored_of doc_c)],
              collections = [(''rag_docs'',
                 [(''A:0'', ''Alpha topic and shared term'',
                    [(''doc_id'', MStr ''A''), (''source_path'', MStr ''docs/a.txt''), (''chunk_index'', MInt 0)], [1]),
                  (''C:0'', ''Gamma'',
                    [(''doc_id'', MStr ''C''), (''source_path'', MStr ''docs/c.txt''), (''chunk_index'', MInt 0)], [1])])],
              calls = [EmbedTexts [''Alpha topic and shared term'', ''Gamma''],
                       CollUpsert \<lparr>ids = [''A:0'', ''C:0''],
                                   documents = [''Alpha topic and shared term'', ''Gamma''],
                                   metadatas = [[(''doc_id'', MStr ''A''), (''source_path'', MStr ''docs/a.txt''), (''chunk_index'', MInt 0)],
                                                [(''doc_id'', MStr ''C''), (''source_path'', MStr ''docs/c.txt''), (''chunk_index'', MInt 0)]],
                                   embeddings = [[1], [1]]\<rparr>]\<rparr>)"
  by code_simp

theorem build_index_store_contents_witness:
  "chromadb_available (simple_env no_hits) \<and>
   docstore_load (doc_store_file world_ab) =
     Inr [(''A'', [(''path'', ''docs/a.txt''), (''content'', ''old alpha'')]), (''B'', stored_of doc_b)] \<and>
   (\<exists>r w'.
      build_index (simple_env no_hits) [doc_a, doc_c] ''docs'' ''data'' ''rag_docs'' 200 20 None False world_ab
        = Some (r, w') \<and>
      doc_store_file w' =
        JsonDict (fold docstore_add [doc_a, doc_c]
          [(''A'', [(''path'', ''docs/a.txt''), (''content'', ''old alpha'')]), (''B'', stored_of doc_b)])) \<and>
   fold docstore_add [doc_a, doc_c]
     [(''A'', [(''path'', ''docs/a.txt''), (''content'', ''old alpha'')]), (''B'', stored_of doc_b)]
     = [(''A'', stored_of doc_a), (''B'', stored_of doc_b), (''C'', stored_of doc_c)] \<and>
   (\<exists>r w'.
      build_index (simple_env no_hits) [doc_a, doc_c] ''docs'' ''data'' ''rag_docs'' 200 20 None True world_ab
        = Some (r, w') \<and>
      doc_store_file w' = JsonDict (fold docstore_add [doc_a, doc_c] [])) \<and>
   fold docstore_add [doc_a, doc_c] [] = [(''A'', stored_of doc_a), (''C'', stored_of doc_c)]"
proof -
  let ?d0 = "[(''A'', [(''path'', ''docs/a.txt''), (''content'', ''old alpha'')]), (''B'', stored_of doc_b)]"
  have av: "chromadb_available (simple_env no_hits)"
    by (simp add: simple_env_def)
  have ld: "docstore_load (doc_store_file world_ab) = Inr ?d0"
    by (simp add: world_ab_def docstore_load_def)
  have h1: "(if False then Inr [] else docstore_load (doc_store_file world_ab)) = Inr ?d0"
    using ld by simp
  have h2: "(if True then Inr [] else docstore_load (doc_store_file world_ab)) = Inr []"
    by simp
  have f1: "fold docstore_add [doc_a, doc_c] ?d0
     = [(''A'', stored_of doc_a), (''B'', stored_of doc_b), (''C'', stored_of doc_c)]"
    by code_simp
  have f2: "fold docstore_add [doc_a, doc_c] [] = [(''A'', stored_of doc_a), (''C'', stored_of doc_c)]"
    by code_simp
  note t1 = build_index_store_contents
    [OF av h1, of "[doc_a, doc_c]" "''docs''" "''data''" "''rag_docs''" 200 20 None, THEN conjunct1]
  note t2 = build_index_store_contents
    [OF av h2, of "[doc_a, doc_c]" "''docs''" "''data''" "''rag_docs''" 200 20 None, THEN conjunct1]
  from av ld t1 f1 t2 f2 show ?thesis by (intro conjI)
qed

text \<open>
  Claim C5.  When the embedding call fails, \<open>build_index\<close> raises that error, and the state
  it leaves has the store file already written with every loaded document added; the
  only call made is the failed \<open>embed_texts\<close>, and the collection is as its acquisition
  left it.
\<close>

theorem build_index_embedding_failure_keeps_store:
  assumes "chromadb_available ev"
    and "(if rebuild then Inr [] else docstore_load (doc_store_file w)) = Inr d0"
    and "build_chunks ds cs co [] = Some (Inr chunks)"
    and "chunks \<noteq> []"
    and "(case emb of Some g \<Rightarrow> Inr g | None \<Rightarrow> get_embedder ev) = Inr f"
    and "f (map chunk_content chunks) = Inl e"
  shows "\<exists>w'. build_index ev ds docs_dir data_dir name cs co emb rebuild w = Some (Inl e, w') \<and>
           doc_store_file w' = JsonDict (fold docstore_add ds d0) \<and>
           doc_id ` set ds \<subseteq> fst ` set (fold docstore_add ds d0) \<and>
           calls w' = calls w @ [EmbedTexts (map chunk_content chunks)] \<and>
           collections w' =
             collections (if rebuild then recreate_collection name w else create_collection name w)"
proof -
  have k: "doc_id ` set ds \<subseteq> fst ` set (fold docstore_add ds d0)"
    by (simp add: keys_fold_docstore_add)
  show ?thesis
    unfolding store_prefix [OF assms(1,2)]
    using assms(3-6) k
    by (simp add: Let_def create_collection_fields recreate_collection_fields)
qed

text \<open>
  Claim C6.  When chunking the loaded documents yields no chunk, \<open>build_index\<close> returns
  the summary with \<open>chunk_count = 0\<close>, makes no call to \<open>embed_texts\<close>, \<open>upsert\<close> or \<open>add\<close>,
  and leaves the collection as its acquisition left it.
\<close>

theorem build_index_zero_chunks:
  assumes "chromadb_available ev"
    and "(if rebuild then Inr [] else docstore_load (doc_store_file w)) = Inr d0"
    and "build_chunks ds cs co [] = Some (Inr [])"
  shows "\<exists>w'. build_index ev ds docs_dir data_dir name cs co emb rebuild w =
             Some (Inr \<lparr>s_docs_dir = docs_dir, s_data_dir = data_dir, s_collection = name,
                        doc_count = length ds, chunk_count = 0\<rparr>, w') \<and>
           calls w' = calls w \<and>
           collections w' =
             collections (if rebuild then recreate_collection name w else create_collection name w)"
  unfolding store_prefix [OF assms(1,2)]
  using assms(3)
  by (simp add: Let_def create_collection_fields recreate_collection_fields)

text \<open>
  Claim C7.  When the loaded store holds no document, \<open>query_index\<close> returns the query
  with an empty result list, and makes no call to \<open>embed_texts\<close> and no query of the
  collection.
\<close>

theorem query_index_empty_store:
  assumes "chromadb_available ev"
    and "docstore_load (doc_store_file w) = Inr ds"
    and "docstore_count ds = 0"
  shows "\<exists>w'. query_index ev query name top_k emb w = (Inr \<lparr>r_query = query, results = []\<rparr>, w') \<and>
           calls w' = calls w"
  using assms
  by (simp add: query_index_def ensure_chroma_client_def Let_def create_collection_fields)

lemma one_doc_chunks:
  "build_chunks [doc_c] 200 20 [] =
     Some (Inr [\<lparr>chunk_id = ''C:0'', chunk_doc_id = ''C'', chunk_content = ''Gamma'',
                  source_path = ''docs/c.txt'', chunk_index = 0\<rparr>])"
  by code_simp

theorem build_index_embedding_failure_keeps_store_witness:
  "chromadb_available (simple_env no_hits) \<and>
   (\<exists>w'. build_index (simple_env no_hits) [doc_c] ''docs'' ''data'' ''rag_docs'' 200 20
            (Some failing_embedder) False world_ab
          = Some (Inl (BackendError ''embedding failed''), w') \<and>
      doc_store_file w' = JsonDict (fold docstore_add [doc_c]
          [(''A'', [(''path'', ''docs/a.txt''), (''content'', ''old alpha'')]), (''B'', stored_of doc_b)]) \<and>
      doc_id ` set [doc_c] \<subseteq> fst ` set (fold docstore_add [doc_c]
          [(''A'', [(''path'', ''docs/a.txt''), (''content'', ''old alpha'')]), (''B'', stored_of doc_b)]) \<and>
      calls w' = calls world_ab @ [EmbedTexts (map chunk_content
          [\<lparr>chunk_id = ''C:0'', chunk_doc_id = ''C'', chunk_content = ''Gamma'',
            source_path = ''docs/c.txt'', chunk_index = 0\<rparr>])] \<and>
      collections w' =
        collections (if False then recreate_collection ''rag_docs'' world_ab
                     else create_collection ''rag_docs'' world_ab))"
proof -
  let ?d0 = "[(''A'', [(''path'', ''docs/a.txt''), (''content'', ''old alpha'')]), (''B'', stored_of doc_b)]"
  have av: "chromadb_available (simple_env no_hits)"
    by (simp add: simple_env_def)
  have h1: "(if False then Inr [] else docstore_load (doc_store_file world_ab)) = Inr ?d0"
    by (simp add: world_ab_def docstore_load_def)
  have ne: "[\<lparr>chunk_id = ''C:0'', chunk_doc_id = ''C'', chunk_content = ''Gamma'',
              source_path = ''docs/c.txt'', chunk_index = 0\<rparr>] \<noteq> []"
    by simp
  have em: "(case Some failing_embedder of Some g \<Rightarrow> Inr g | None \<Rightarrow> get_embedder (simple_env no_hits))
              = Inr failing_embedder"
    by simp
  have fl: "failing_embedder (map chunk_content
              [\<lparr>chunk_id = ''C:0'', chunk_doc_id = ''C'', chunk_content = ''Gamma'',
                source_path = ''docs/c.txt'', chunk_index = 0\<rparr>]) = Inl (BackendError ''embedding failed'')"
    by (simp add: failing_embedder_def)
  note t = build_index_embedding_failure_keeps_store
    [OF av h1 one_doc_chunks ne em fl, of "''docs''" "''data''" "''rag_docs''"]
  from av t show ?thesis by (intro conjI)
qed

theorem build_index_zero_chunks_witness:
  "chromadb_available (simple_env no_hits) \<and>
   build_chunks [] 200 20 [] = Some (Inr []) \<and>
   (\<exists>w'. build_index (simple_env no_hits) [] ''docs'' ''data'' ''rag_docs'' 200 20 None True empty_world =
             Some (Inr \<lparr>s_docs_dir = ''docs'', s_data_dir = ''data'', s_collection = ''rag_docs'',
                        doc_count = length ([] :: document list), chunk_count = 0\<rparr>, w') \<and>
           calls w' = calls empty_world \<and>
           collections w' =
             collections (if True then recreate_collection ''rag_docs'' empty_world
                          else create_collection ''rag_docs'' empty_world))"
proof -
  have av: "chromadb_available (simple_env no_hits)"
    by (simp add: simple_env_def)
  have h: "(if True then Inr [] else docstore_load (doc_store_file empty_world)) = Inr []"
    by simp
  have c: "build_chunks [] 200 20 [] = Some (Inr [])"
    by simp
  note t = build_index_zero_chunks [OF av h c, of "''docs''" "''data''" "''rag_docs''" None]
  from av c t show ?thesis by (intro conjI)
qed

theorem query_index_empty_store_witness:
  "chromadb_available (simple_env no_hits) \<and>
   docstore_load (doc_store_file empty_world) = Inr [] \<and>
   docstore_count [] = 0 \<and>
   (\<exists>w'. query_index (simple_env no_hits) ''alpha topic'' ''rag_docs'' 3 None empty_world
            = (Inr \<lparr>r_query = ''alpha topic'', results = []\<rparr>, w') \<and>
          calls w' = calls empty_world)"
proof -
  have av: "chromadb_available (simple_env no_hits)"
    by (simp add: simple_env_def)
  have ld: "docstore_load (doc_store_file empty_world) = Inr []"
    by (simp add: empty_world_def docstore_load_def)
  have ct: "docstore_count [] = 0"
    by (simp add: docstore_count_def)
  note t = query_index_empty_store [OF av ld ct, of "''alpha topic''" "''rag_docs''" 3 None]
  from av ld ct t show ?thesis by (intro conjI)
qed

section \<open>Properties of the aggregation and ranking\<close>

lemma best_of_Min: "best_of xs = (if xs = [] then None else Some (Min (set xs)))"
proof (induction xs)
  case Nil
  show ?case by simp
next
  case (Cons x xs)
  show ?case
  proof (cases "xs = []")
    case True
    then show ?thesis by simp
  next
    case False
    then have "Min (set (x # xs)) = min x (Min (set xs))"
      by (simp add: Min_insert)
    with False Cons.IH show ?thesis by simp
  qed
qed

lemma distances_of_discard:
  "hit_doc_id m = None \<or> (\<exists>d'. hit_doc_id m = Some d' \<and> \<not> truthy d') \<Longrightarrow>
     distances_of d ((m, x) # hits) = distances_of d hits"
  by (auto simp: distances_of_def kept_hits_def map_filter_simps)

lemma distances_of_keep:
  "hit_doc_id m = Some d' \<Longrightarrow> truthy d' \<Longrightarrow>
     distances_of d ((m, x) # hits) = (if d' = d then x # distances_of d hits else distances_of d hits)"
  by (simp add: distances_of_def kept_hits_def map_filter_simps)

lemma map_of_aggregate:
  "map_of (aggregate hits best) d = merge_best (map_of best d) (best_of (distances_of d hits))"
proof (induction hits arbitrary: best)
  case Nil
  show ?case by (simp add: distances_of_def kept_hits_def map_filter_simps merge_best_def)
next
  case (Cons h hits)
  obtain m x where h: "h = (m, x)" by (cases h)
  show ?case
  proof (cases "hit_doc_id m")
    case None
    then show ?thesis
      unfolding h using Cons.IH [of best] by (simp add: distances_of_discard)
  next
    case (Some d')
    show ?thesis
    proof (cases "truthy d'")
      case False
      with Some show ?thesis
        unfolding h using Cons.IH [of best] by (simp add: distances_of_discard)
    next
      case True
      define new where "new = (case map_of best d' of None \<Rightarrow> x | Some c \<Rightarrow> if x < c then x else c)"
      have agg: "aggregate ((m, x) # hits) best = aggregate hits (AList.update d' new best) \<or>
                 (aggregate ((m, x) # hits) best = aggregate hits best \<and> map_of best d' = Some new)"
        using Some True by (auto simp: new_def split: option.split)
      have upd: "map_of (aggregate ((m, x) # hits) best) d =
                 merge_best (((map_of best)(d' \<mapsto> new)) d) (best_of (distances_of d hits))"
      proof -
        from agg show ?thesis
        proof
          assume "aggregate ((m, x) # hits) best = aggregate hits (AList.update d' new best)"
          then show ?thesis by (simp add: Cons.IH update_conv')
        next
          assume a: "aggregate ((m, x) # hits) best = aggregate hits best \<and> map_of best d' = Some new"
          then have "(map_of best)(d' \<mapsto> new) = map_of best" by (auto simp: fun_eq_iff)
          with a show ?thesis by (simp add: Cons.IH)
        qed
      qed
      show ?thesis
        unfolding h upd distances_of_keep [OF Some True]
        by (auto simp: merge_best_def new_def min_def split: option.split)
    qed
  qed
qed

lemma distinct_aggregate:
  "distinct (map fst best) \<Longrightarrow> distinct (map fst (aggregate hits best))"
proof (induction hits arbitrary: best)
  case Nil
  then show ?case by simp
next
  case (Cons h hits)
  obtain m x where h: "h = (m, x)" by (cases h)
  show ?case
    unfolding h using Cons.IH Cons.prems
    by (auto simp: distinct_update split: option.split)
qed

lemma ranked_take: "0 \<le> top_k \<Longrightarrow> ranked best top_k = take (nat top_k) (sort_key snd best)"
  by (simp add: ranked_def py_slice_def slice_index_def Let_def min_def)

lemma sorted_ranked: "sorted (map snd (ranked best top_k))"
proof -
  have "sorted (map snd (sort_key snd best))" by (rule sorted_sort_key)
  then show ?thesis
    by (simp add: ranked_def py_slice_def Let_def take_map [symmetric] drop_map [symmetric]
        sorted_wrt_take sorted_wrt_drop)
qed

lemma set_ranked: "set (ranked best top_k) \<subseteq> set best"
proof -
  have "set (ranked best top_k) \<subseteq> set (sort_key snd best)"
    unfolding ranked_def py_slice_def Let_def
    by (meson set_take_subset set_drop_subset subset_trans)
  then show ?thesis by simp
qed

lemma respond_map_filter: "respond ds rs acc = acc @ List.map_filter (to_result ds) rs"
  by (induction rs arbitrary: acc)
     (auto simp: to_result_def map_filter_simps split: option.split)

lemma map_of_aggregate_Min:
  "map_of (aggregate hits []) d =
     (if distances_of d hits = [] then None else Some (Min (set (distances_of d hits))))"
  by (simp add: map_of_aggregate merge_best_def best_of_Min)

lemma to_result_fields:
  "to_result ds item = Some r \<Longrightarrow> r_doc_id r = fst item \<and> score r = 1 - snd item"
  by (auto simp: to_result_def split: option.splits if_splits)

lemma query_results_map_filter:
  "query_results ds ms distances top_k =
     List.map_filter (to_result ds) (ranked (aggregate (zip ms distances) []) top_k)"
  by (simp add: query_results_def respond_map_filter)

lemma query_results_score:
  assumes "r \<in> set (query_results ds ms distances top_k)"
  shows "distances_of (r_doc_id r) (zip ms distances) \<noteq> [] \<and>
         score r = 1 - Min (set (distances_of (r_doc_id r) (zip ms distances)))"
proof -
  define best where "best = aggregate (zip ms distances) []"
  from assms obtain item where item: "item \<in> set (ranked best top_k)" and r: "to_result ds item = Some r"
    unfolding query_results_map_filter best_def by (auto simp: map_filter_def)
  from item have "(fst item, snd item) \<in> set best" using set_ranked by fastforce
  moreover have "distinct (map fst best)"
    unfolding best_def by (rule distinct_aggregate) simp
  ultimately have "map_of best (fst item) = Some (snd item)"
    by (intro map_of_is_SomeI)
  then have m: "(if distances_of (fst item) (zip ms distances) = [] then None
                 else Some (Min (set (distances_of (fst item) (zip ms distances))))) = Some (snd item)"
    unfolding best_def map_of_aggregate_Min .
  have ne: "distances_of (fst item) (zip ms distances) \<noteq> []"
  proof
    assume "distances_of (fst item) (zip ms distances) = []"
    with m show False by simp
  qed
  with m have "snd item = Min (set (distances_of (fst item) (zip ms distances)))" by simp
  with ne to_result_fields [OF r] show ?thesis by simp
qed

lemma the_collection_calls: "the_collection name (w\<lparr>calls := c\<rparr>) = the_collection name w"
  by (simp add: the_collection_def)

text \<open>
  Past the empty-store return, with the embedder resolved and the embedding and the
  query of the collection both succeeding, \<open>query_index\<close> returns the response built
  from the first row of metadatas and of distances, after exactly these two calls.
\<close>

lemma query_index_results:
  assumes "chromadb_available ev"
    and "docstore_load (doc_store_file w) = Inr ds"
    and "docstore_count ds \<noteq> 0"
    and "(case emb of Some g \<Rightarrow> Inr g | None \<Rightarrow> get_embedder ev) = Inr f"
    and "f [query] = Inr qe"
    and "coll_query ev (the_collection name (create_collection name w)) qe top_k = Inr res"
    and "first_or_empty (qr_metadatas res) = Inr ms"
    and "first_or_empty (qr_distances res) = Inr distances"
  shows "query_index ev query name top_k emb w =
           (Inr \<lparr>r_query = query, results = query_results ds ms distances top_k\<rparr>,
            (create_collection name w)
              \<lparr>calls := calls w @ [EmbedTexts [query], CollQuery qe top_k]\<rparr>)"
  using assms
  by (simp add: query_index_def ensure_chroma_client_def Let_def create_collection_fields
      the_collection_calls)

text \<open>
  The kept hits, without the helper predicates: a hit is kept under document id \<open>d\<close>
  exactly when it has a metadata dictionary whose \<open>doc_id\<close> entry is \<open>d\<close>, and \<open>d\<close> is
  neither the empty string nor zero.
\<close>

lemma kept_hits_iff:
  "(d, x) \<in> set (kept_hits hits) \<longleftrightarrow>
     (\<exists>m. (Some m, x) \<in> set hits \<and> map_of m ''doc_id'' = Some d \<and> d \<noteq> MStr [] \<and> d \<noteq> MInt 0)"
proof
  assume "(d, x) \<in> set (kept_hits hits)"
  then obtain mo where mem: "(mo, x) \<in> set hits" and id: "hit_doc_id mo = Some d" and t: "truthy d"
    by (auto simp: kept_hits_def map_filter_def split: option.splits if_splits)
  from id obtain m where mo: "mo = Some m" and g: "map_of m ''doc_id'' = Some d"
    by (auto simp: hit_doc_id_def split: option.splits if_splits)
  from t have "d \<noteq> MStr [] \<and> d \<noteq> MInt 0"
    by (auto simp: truthy_def)
  with mem mo g show "\<exists>m. (Some m, x) \<in> set hits \<and> map_of m ''doc_id'' = Some d \<and> d \<noteq> MStr [] \<and> d \<noteq> MInt 0"
    by auto
next
  assume "\<exists>m. (Some m, x) \<in> set hits \<and> map_of m ''doc_id'' = Some d \<and> d \<noteq> MStr [] \<and> d \<noteq> MInt 0"
  then obtain m where mem: "(Some m, x) \<in> set hits" and g: "map_of m ''doc_id'' = Some d"
    and ne: "d \<noteq> MStr []" "d \<noteq> MInt 0"
    by auto
  from g have "m \<noteq> []" by auto
  with g have id: "hit_doc_id (Some m) = Some d" by (simp add: hit_doc_id_def)
  from ne have t: "truthy d" by (cases d) (simp_all add: truthy_def)
  have "(\<lambda>(m, x). case hit_doc_id m of None \<Rightarrow> None
                   | Some d \<Rightarrow> if truthy d then Some (d, x) else None) (Some m, x) = Some (d, x)"
    using id t by simp
  with mem show "(d, x) \<in> set (kept_hits hits)"
    unfolding kept_hits_def map_filter_def by force
qed

text \<open>
  Claim C1.  Past its empty-store return, when the embedding and the query of the
  collection succeed with the hits \<open>ms\<close>, \<open>distances\<close>, \<open>query_index\<close> returns the results
  \<open>query_results ds ms distances top_k\<close>.  For every list of hits, \<open>best_scores\<close> has one
  entry per document id among the kept hits (those whose metadata has a \<open>doc_id\<close> that
  is neither missing nor empty), holding the minimum of that document's distances; the
  ranked list is sorted by distance ascending, is part of \<open>best_scores\<close> and, for
  \<open>top_k \<ge> 0\<close>, is its first \<open>top_k\<close> entries in sorted order; the response holds one
  result per ranked document found in the store, and the score of every result is 1
  minus the minimum distance of its document, without clamping (distance 1.5 gives
  score -0.5).  For the hits (A, 0.3), (A, 0.1), (B, 0.2) and \<open>top_k = 2\<close> the ranked
  order is A with 0.1, then B with 0.2; hits with no metadata, an empty metadata, no
  \<open>doc_id\<close> or an empty \<open>doc_id\<close> are discarded even when their distance is the smallest.
\<close>

theorem query_results_aggregate_rank_score:
  "(chromadb_available ev \<and>
    docstore_load (doc_store_file w) = Inr ds \<and>
    docstore_count ds \<noteq> 0 \<and>
    (case emb of Some g \<Rightarrow> Inr g | None \<Rightarrow> get_embedder ev) = Inr f \<and>
    f [query] = Inr qe \<and>
    coll_query ev (the_collection name (create_collection name w)) qe top_k = Inr res \<and>
    first_or_empty (qr_metadatas res) = Inr ms \<and>
    first_or_empty (qr_distances res) = Inr distances
    \<longrightarrow>
    (\<exists>w'. query_index ev query name top_k emb w =
             (Inr \<lparr>r_query = query, results = query_results ds ms distances top_k\<rparr>, w') \<and>
           calls w' = calls w @ [EmbedTexts [query], CollQuery qe top_k])) \<and>
   distinct (map fst (aggregate (zip ms distances) [])) \<and>
   (\<forall>d. map_of (aggregate (zip ms distances) []) d =
          (if distances_of d (zip ms distances) = [] then None
           else Some (Min (set (distances_of d (zip ms distances)))))) \<and>
   sorted (map snd (ranked (aggregate (zip ms distances) []) top_k)) \<and>
   set (ranked (aggregate (zip ms distances) []) top_k) \<subseteq> set (aggregate (zip ms distances) []) \<and>
   (0 \<le> top_k \<longrightarrow>
      ranked (aggregate (zip ms distances) []) top_k =
        take (nat top_k) (sort_key snd (aggregate (zip ms distances) []))) \<and>
   query_results ds ms distances top_k =
     List.map_filter (to_result ds) (ranked (aggregate (zip ms distances) []) top_k) \<and>
   (\<forall>r \<in> set (query_results ds ms distances top_k).
      distances_of (r_doc_id r) (zip ms distances) \<noteq> [] \<and>
      score r = 1 - Min (set (distances_of (r_doc_id r) (zip ms distances)))) \<and>
   ranked (aggregate (zip [doc_hit ''A'', doc_hit ''A'', doc_hit ''B''] [0.3, 0.1, 0.2]) []) 2
     = [(MStr ''A'', 0.1), (MStr ''B'', 0.2)] \<and>
   map score (query_results [(''A'', stored_of doc_a)] [doc_hit ''A''] [1.5] 1) = [- 0.5] \<and>
   (\<forall>d x. (d, x) \<in> set (kept_hits (zip ms distances)) \<longleftrightarrow>
      (\<exists>m. (Some m, x) \<in> set (zip ms distances) \<and> map_of m ''doc_id'' = Some d \<and>
           d \<noteq> MStr [] \<and> d \<noteq> MInt 0)) \<and>
   aggregate (zip [None, Some [], Some [(''source_path'', MStr ''docs/a.txt'')],
                   Some [(''doc_id'', MStr [])], doc_hit ''B'', doc_hit ''A'']
                  [0.01, 0.02, 0.03, 0.04, 0.2, 0.3]) []
     = [(MStr ''B'', 0.2), (MStr ''A'', 0.3)]"
proof (intro conjI allI impI ballI)
  assume h: "chromadb_available ev \<and>
    docstore_load (doc_store_file w) = Inr ds \<and>
    docstore_count ds \<noteq> 0 \<and>
    (case emb of Some g \<Rightarrow> Inr g | None \<Rightarrow> get_embedder ev) = Inr f \<and>
    f [query] = Inr qe \<and>
    coll_query ev (the_collection name (create_collection name w)) qe top_k = Inr res \<and>
    first_or_empty (qr_metadatas res) = Inr ms \<and>
    first_or_empty (qr_distances res) = Inr distances"
  have "query_index ev query name top_k emb w =
           (Inr \<lparr>r_query = query, results = query_results ds ms distances top_k\<rparr>,
            (create_collection name w)
              \<lparr>calls := calls w @ [EmbedTexts [query], CollQuery qe top_k]\<rparr>)"
    by (rule query_index_results
          [OF h [THEN conjunct1]
              h [THEN conjunct2, THEN conjunct1]
              h [THEN conjunct2, THEN conjunct2, THEN conjunct1]
              h [THEN conjunct2, THEN conjunct2, THEN conjunct2, THEN conjunct1]
              h [THEN conjunct2, THEN conjunct2, THEN conjunct2, THEN conjunct2, THEN conjunct1]
              h [THEN conjunct2, THEN conjunct2, THEN conjunct2, THEN conjunct2, THEN conjunct2,
                 THEN conjunct1]
              h [THEN conjunct2, THEN conjunct2, THEN conjunct2, THEN conjunct2, THEN conjunct2,
                 THEN conjunct2, THEN conjunct1]
              h [THEN conjunct2, THEN conjunct2, THEN conjunct2, THEN conjunct2, THEN conjunct2,
                 THEN conjunct2, THEN conjunct2]])
  then show "\<exists>w'. query_index ev query name top_k emb w =
             (Inr \<lparr>r_query = query, results = query_results ds ms distances top_k\<rparr>, w') \<and>
           calls w' = calls w @ [EmbedTexts [query], CollQuery qe top_k]"
    by simp
next
  show "distinct (map fst (aggregate (zip ms distances) []))"
    by (rule distinct_aggregate) simp
  show "map_of (aggregate (zip ms distances) []) d =
          (if distances_of d (zip ms distances) = [] then None
           else Some (Min (set (distances_of d (zip ms distances)))))" for d
    by (rule map_of_aggregate_Min)
  show "sorted (map snd (ranked (aggregate (zip ms distances) []) top_k))"
    by (rule sorted_ranked)
  show "set (ranked (aggregate (zip ms distances) []) top_k) \<subseteq> set (aggregate (zip ms distances) [])"
    by (rule set_ranked)
  show "ranked (aggregate (zip ms distances) []) top_k =
        take (nat top_k) (sort_key snd (aggregate (zip ms distances) []))" if "0 \<le> top_k"
    using that by (rule ranked_take)
  show "query_results ds ms distances top_k =
     List.map_filter (to_result ds) (ranked (aggregate (zip ms distances) []) top_k)"
    by (rule query_results_map_filter)
  show "distances_of (r_doc_id r) (zip ms distances) \<noteq> []"
    if "r \<in> set (query_results ds ms distances top_k)" for r
    using query_results_score [OF that] by simp
  show "score r = 1 - Min (set (distances_of (r_doc_id r) (zip ms distances)))"
    if "r \<in> set (query_results ds ms distances top_k)" for r
    using query_results_score [OF that] by simp
  show "ranked (aggregate (zip [doc_hit ''A'', doc_hit ''A'', doc_hit ''B''] [0.3, 0.1, 0.2]) []) 2
         = [(MStr ''A'', 0.1), (MStr ''B'', 0.2)]"
    by code_simp
  show "map score (query_results [(''A'', stored_of doc_a)] [doc_hit ''A''] [1.5] 1) = [- 0.5]"
    by code_simp
  show "(d, x) \<in> set (kept_hits (zip ms distances)) \<longleftrightarrow>
      (\<exists>m. (Some m, x) \<in> set (zip ms distances) \<and> map_of m ''doc_id'' = Some d \<and>
           d \<noteq> MStr [] \<and> d \<noteq> MInt 0)" for d x
    by (rule kept_hits_iff)
  show "aggregate (zip [None, Some [], Some [(''source_path'', MStr ''docs/a.txt'')],
                   Some [(''doc_id'', MStr [])], doc_hit ''B'', doc_hit ''A'']
                  [0.01, 0.02, 0.03, 0.04, 0.2, 0.3]) []
     = [(MStr ''B'', 0.2), (MStr ''A'', 0.3)]"
    by code_simp
qed

text \<open>The whole of \<open>query_index\<close> on these three hits, against a store holding A and B.\<close>

lemma query_index_three_hits:
  "query_index (simple_env three_hits) ''alpha'' ''rag_docs'' 2 None world_ab =
     (Inr \<lparr>r_query = ''alpha'',
           results = [\<lparr>r_doc_id = MStr ''A'', r_source_path = ''docs/a.txt'', score = 0.9,
                       r_content = ''old alpha''\<rparr>,
                      \<lparr>r_doc_id = MStr ''B'', r_source_path = ''docs/b.txt'', score = 0.8,
                       r_content = ''Beta topic only''\<rparr>]\<rparr>,
      \<lparr>doc_store_file = doc_store_file world_ab,
       collections = [(''rag_docs'', [])],
       calls = [EmbedTexts [''alpha''], CollQuery [[1]] 2]\<rparr>)"
  by code_simp

theorem query_results_aggregate_rank_score_witness:
  "chromadb_available (simple_env three_hits) \<and>
   docstore_load (doc_store_file world_ab) =
     Inr [(''A'', [(''path'', ''docs/a.txt''), (''content'', ''old alpha'')]), (''B'', stored_of doc_b)] \<and>
   docstore_count [(''A'', [(''path'', ''docs/a.txt''), (''content'', ''old alpha'')]),
                   (''B'', stored_of doc_b)] \<noteq> 0 \<and>
   (case None of Some g \<Rightarrow> Inr g | None \<Rightarrow> get_embedder (simple_env three_hits)) = Inr unit_embedder \<and>
   unit_embedder [''alpha''] = Inr [[1]] \<and>
   coll_query (simple_env three_hits)
     (the_collection ''rag_docs'' (create_collection ''rag_docs'' world_ab)) [[1]] 2 = Inr three_hits \<and>
   first_or_empty (qr_metadatas three_hits) = Inr [doc_hit ''A'', doc_hit ''A'', doc_hit ''B''] \<and>
   first_or_empty (qr_distances three_hits) = Inr [0.3, 0.1, 0.2] \<and>
   (\<exists>w'. query_index (simple_env three_hits) ''alpha'' ''rag_docs'' 2 None world_ab =
            (Inr \<lparr>r_query = ''alpha'',
                  results = query_results
                    [(''A'', [(''path'', ''docs/a.txt''), (''content'', ''old alpha'')]),
                     (''B'', stored_of doc_b)]
                    [doc_hit ''A'', doc_hit ''A'', doc_hit ''B''] [0.3, 0.1, 0.2] 2\<rparr>, w') \<and>
          calls w' = calls world_ab @ [EmbedTexts [''alpha''], CollQuery [[1]] 2]) \<and>
   (0::int) \<le> 2 \<and>
   ranked (aggregate (zip [doc_hit ''A'', doc_hit ''A'', doc_hit ''B''] [0.3, 0.1, 0.2]) []) 2 =
     take (nat 2) (sort_key snd (aggregate (zip [doc_hit ''A'', doc_hit ''A'', doc_hit ''B''] [0.3, 0.1, 0.2]) [])) \<and>
   query_results
     [(''A'', [(''path'', ''docs/a.txt''), (''content'', ''old alpha'')]), (''B'', stored_of doc_b)]
     [doc_hit ''A'', doc_hit ''A'', doc_hit ''B''] [0.3, 0.1, 0.2] 2 =
     [\<lparr>r_doc_id = MStr ''A'', r_source_path = ''docs/a.txt'', score = 0.9, r_content = ''old alpha''\<rparr>,
      \<lparr>r_doc_id = MStr ''B'', r_source_path = ''docs/b.txt'', score = 0.8,
        r_content = ''Beta topic only''\<rparr>] \<and>
   distances_of (r_doc_id \<lparr>r_doc_id = MStr ''A'', r_source_path = ''docs/a.txt'', score = 0.9,
       r_content = ''old alpha''\<rparr>)
     (zip [doc_hit ''A'', doc_hit ''A'', doc_hit ''B''] [0.3, 0.1, 0.2]) \<noteq> [] \<and>
   score \<lparr>r_doc_id = MStr ''A'', r_source_path = ''docs/a.txt'', score = 0.9,
       r_content = ''old alpha''\<rparr> =
     1 - Min (set (distances_of (r_doc_id \<lparr>r_doc_id = MStr ''A'', r_source_path = ''docs/a.txt'',
       score = 0.9, r_content = ''old alpha''\<rparr>)
       (zip [doc_hit ''A'', doc_hit ''A'', doc_hit ''B''] [0.3, 0.1, 0.2])))"
proof -
  let ?st = "[(''A'', [(''path'', ''docs/a.txt''), (''content'', ''old alpha'')]), (''B'', stored_of doc_b)]"
  let ?ms = "[doc_hit ''A'', doc_hit ''A'', doc_hit ''B'']"
  let ?ds = "[0.3, 0.1, 0.2] :: real list"
  let ?r = "\<lparr>r_doc_id = MStr ''A'', r_source_path = ''docs/a.txt'', score = 0.9,
       r_content = ''old alpha''\<rparr>"
  let ?r2 = "\<lparr>r_doc_id = MStr ''B'', r_source_path = ''docs/b.txt'', score = 0.8,
        r_content = ''Beta topic only''\<rparr>"
  note t = query_results_aggregate_rank_score
    [where ev = "simple_env three_hits" and w = world_ab and ds = ?st and emb = None
       and f = unit_embedder and query = "''alpha''" and qe = "[[1]]" and name = "''rag_docs''"
       and top_k = 2 and res = three_hits and ms = ?ms and distances = ?ds]
  have a1: "chromadb_available (simple_env three_hits)"
    by (simp add: simple_env_def)
  have a2: "docstore_load (doc_store_file world_ab) = Inr ?st"
    by (simp add: world_ab_def docstore_load_def)
  have a3: "docstore_count ?st \<noteq> 0"
    by (simp add: docstore_count_def)
  have a4: "(case None of Some g \<Rightarrow> Inr g | None \<Rightarrow> get_embedder (simple_env three_hits)) = Inr unit_embedder"
    by (simp add: simple_env_def)
  have a5: "unit_embedder [''alpha''] = Inr [[1]]"
    by (simp add: unit_embedder_def)
  have a6: "coll_query (simple_env three_hits)
     (the_collection ''rag_docs'' (create_collection ''rag_docs'' world_ab)) [[1]] 2 = Inr three_hits"
    by (simp add: simple_env_def)
  have a7: "first_or_empty (qr_metadatas three_hits) = Inr ?ms"
    by (simp add: first_or_empty_def three_hits_def)
  have a8: "first_or_empty (qr_distances three_hits) = Inr ?ds"
    by (simp add: first_or_empty_def three_hits_def)
  have hyps: "chromadb_available (simple_env three_hits) \<and>
    docstore_load (doc_store_file world_ab) = Inr ?st \<and>
    docstore_count ?st \<noteq> 0 \<and>
    (case None of Some g \<Rightarrow> Inr g | None \<Rightarrow> get_embedder (simple_env three_hits)) = Inr unit_embedder \<and>
    unit_embedder [''alpha''] = Inr [[1]] \<and>
    coll_query (simple_env three_hits)
      (the_collection ''rag_docs'' (create_collection ''rag_docs'' world_ab)) [[1]] 2 = Inr three_hits \<and>
    first_or_empty (qr_metadatas three_hits) = Inr ?ms \<and>
    first_or_empty (qr_distances three_hits) = Inr ?ds"
    using a1 a2 a3 a4 a5 a6 a7 a8 by (intro conjI)
  note tq = t [THEN conjunct1, THEN mp, OF hyps]
  have k: "(0::int) \<le> 2" by simp
  have q: "query_results ?st ?ms ?ds 2 = [?r, ?r2]"
    by code_simp
  have mem: "?r \<in> set (query_results ?st ?ms ?ds 2)"
    unfolding q by simp
  note tk = t [THEN conjunct2, THEN conjunct2, THEN conjunct2, THEN conjunct2, THEN conjunct2,
               THEN conjunct1, THEN mp, OF k]
  note tb = t [THEN conjunct2, THEN conjunct2, THEN conjunct2, THEN conjunct2, THEN conjunct2,
               THEN conjunct2, THEN conjunct2, THEN conjunct1, THEN bspec, OF mem]
  from a1 a2 a3 a4 a5 a6 a7 a8 tq k tk q tb show ?thesis by (intro conjI) simp_all
qed

end
